theory Spec2Isabelle
  imports Complex_Main "HOL-Library.Multiset" "HOL-Library.Option_ord"
begin

section \<open>Data model\<close>

text \<open>
  The helpers of \<^verbatim>\<open>scripts/utils.py\<close> work on a pandas DataFrame. A frame is an
  ordered list of named columns of one common length. A column is a numeric series
  (dtype float64, \<open>None\<close> standing for NaN) or a text series (dtype object holding strings,
  \<open>None\<close> standing for a missing value). Floating-point numbers are idealised as
  rationals. Exceptions are values of type \<open>error\<close>; a function that can raise returns
  \<open>error + 'a\<close>.

  The source calls pandas, numpy and scipy. Their operations are modelled as they
  behave: \<^verbatim>\<open>groupby\<close> with its default \<^verbatim>\<open>dropna=True\<close>, \<^verbatim>\<open>transform\<close>
  returning NaN for the rows of no group, \<^verbatim>\<open>np.nanpercentile\<close> with the linear
  method and its answer for an empty array, and \<^verbatim>\<open>scipy.stats.mode\<close> returning
  arrays, as the source's indexing \<^verbatim>\<open>[0][0]\<close> expects.
\<close>

datatype error = KeyError | TypeError | IndexError | AttributeError | ValueError

datatype cell = NA | Num rat | Str string

datatype series = Float64 "rat option list" | Object "string option list"

type_synonym 's frame = "(string \<times> 's) list"

type_synonym dataframe = "series frame"

fun len :: "series \<Rightarrow> nat" where
  "len (Float64 vs) = length vs"
| "len (Object ss) = length ss"

fun cells :: "series \<Rightarrow> cell list" where
  "cells (Float64 vs) = map (\<lambda>v. case v of None \<Rightarrow> NA | Some r \<Rightarrow> Num r) vs"
| "cells (Object ss) = map (\<lambda>v. case v of None \<Rightarrow> NA | Some s \<Rightarrow> Str s) ss"

text \<open>\<^verbatim>\<open>Series.isnull()\<close> and \<^verbatim>\<open>Series.notnull()\<close>, one flag per row.\<close>

definition isnull :: "series \<Rightarrow> bool list" where
  "isnull s = map (\<lambda>c. c = NA) (cells s)"

definition notnull :: "series \<Rightarrow> bool list" where
  "notnull s = map (\<lambda>c. c \<noteq> NA) (cells s)"

text \<open>Row selection by position.\<close>

fun take_rows :: "nat list \<Rightarrow> series \<Rightarrow> series" where
  "take_rows js (Float64 vs) = Float64 (map ((!) vs) js)"
| "take_rows js (Object ss) = Object (map ((!) ss) js)"

text \<open>
  Indexing with a boolean mask keeps the rows at which the mask holds; pandas asks for one
  flag per row.
\<close>

definition mask_rows :: "bool list \<Rightarrow> nat list" where
  "mask_rows m = filter (\<lambda>i. m ! i) [0..<length m]"

definition column_names :: "'s frame \<Rightarrow> string list" where
  "column_names df = map fst df"

text \<open>\<^verbatim>\<open>len(df)\<close>: the number of rows.\<close>

definition nrows :: "dataframe \<Rightarrow> nat" where
  "nrows df = (case df of [] \<Rightarrow> 0 | (_, s) # _ \<Rightarrow> len s)"

text \<open>A frame is rectangular and its column names are distinct.\<close>

definition wf :: "dataframe \<Rightarrow> bool" where
  "wf df \<longleftrightarrow> distinct (map fst df) \<and> (\<forall>(c, s) \<in> set df. len s = nrows df)"

text \<open>\<^verbatim>\<open>df[c]\<close> raises KeyError for a name that is not a column.\<close>

definition getitem :: "'s frame \<Rightarrow> string \<Rightarrow> error + 's" where
  "getitem df c = (case map_of df c of None \<Rightarrow> Inl KeyError | Some s \<Rightarrow> Inr s)"

text \<open>\<^verbatim>\<open>df[c] = s\<close> replaces the column in place, or appends a new last column.\<close>

fun setitem :: "'s frame \<Rightarrow> string \<Rightarrow> 's \<Rightarrow> 's frame" where
  "setitem [] c s = [(c, s)]"
| "setitem ((c', s') # df) c s = (if c' = c then (c, s) # df else (c', s') # setitem df c s)"

text \<open>The cells of row \<open>i\<close>, in column order.\<close>

definition row_at :: "dataframe \<Rightarrow> nat \<Rightarrow> cell list" where
  "row_at df i = map (\<lambda>(c, s). cells s ! i) df"

definition rows :: "dataframe \<Rightarrow> cell list list" where
  "rows df = map (row_at df) [0..<nrows df]"

section \<open>The numeric reductions used by the imputer\<close>

text \<open>\<^verbatim>\<open>Series.dropna()\<close> on the values of a numeric series.\<close>

definition dropna :: "'a option list \<Rightarrow> 'a list" where
  "dropna vs = List.map_filter id vs"

text \<open>
  numpy's percentile with the default linear method, on a sorted non-empty array
  \<open>arr\<close> and a quantile \<open>q\<close> in \<open>[0, 1]\<close>: the virtual index \<open>q * (n - 1)\<close>, its two
  neighbours, and the linear interpolation between them.
\<close>

definition quantile_linear :: "rat list \<Rightarrow> rat \<Rightarrow> rat" where
  "quantile_linear arr q =
     (let n = length arr;
          virtual_index = q * (of_nat n - 1);
          previous = nat \<lfloor>virtual_index\<rfloor>;
          next = min (previous + 1) (n - 1);
          gamma = virtual_index - of_nat previous
      in arr ! previous + (arr ! next - arr ! previous) * gamma)"

text \<open>
  \<^verbatim>\<open>np.nanpercentile(a, qs)\<close> on an array without NaN. numpy answers an empty
  array up front with \<^verbatim>\<open>np.nanmean(a)\<close>, which is the scalar NaN whatever the shape
  of \<open>qs\<close>; otherwise the result is an array with one entry for each percentile.
\<close>

datatype npvalue = NpScalar "rat option" | NpArray "rat list"

definition nanpercentile :: "rat list \<Rightarrow> rat list \<Rightarrow> npvalue" where
  "nanpercentile a qs =
     (if a = [] then NpScalar None
      else NpArray (map (\<lambda>q. quantile_linear (sort a) (q / 100)) qs))"

text \<open>
  The tuple assignment \<^verbatim>\<open>q1, q3 = ...\<close>: a scalar cannot be unpacked (TypeError),
  an array of another length than two gives ValueError.
\<close>

fun unpack2 :: "npvalue \<Rightarrow> error + rat \<times> rat" where
  "unpack2 (NpScalar v) = Inl TypeError"
| "unpack2 (NpArray [x, y]) = Inr (x, y)"
| "unpack2 (NpArray xs) = Inl ValueError"

text \<open>\<^verbatim>\<open>Series.median()\<close>: NaN is skipped; the median of no value is NaN.\<close>

definition median :: "rat option list \<Rightarrow> rat option" where
  "median vs =
     (let xs = sort (dropna vs); n = length xs
      in if n = 0 then None
         else if odd n then Some (xs ! (n div 2))
         else Some ((xs ! (n div 2 - 1) + xs ! (n div 2)) / 2))"

text \<open>\<^verbatim>\<open>Series.fillna(v)\<close>; filling with NaN changes nothing.\<close>

definition fillna :: "rat option list \<Rightarrow> rat option \<Rightarrow> rat option list" where
  "fillna vs v = map (\<lambda>x. case x of None \<Rightarrow> v | Some y \<Rightarrow> Some y) vs"

text \<open>
  \<^verbatim>\<open>scipy.stats.mode(a)\<close> in the releases whose result holds arrays (the ones the
  source's \<^verbatim>\<open>[0][0]\<close> is written for): the unique values are visited in increasing
  order, and a value replaces the current one only when it occurs strictly more often.
  The result is the pair of the mode array and the count array, both empty for an empty
  input.
\<close>

definition mode_step :: "rat list \<Rightarrow> rat \<Rightarrow> rat \<times> nat \<Rightarrow> rat \<times> nat" where
  "mode_step a score st =
     (let counts = count_list a score
      in (if counts > snd st then score else fst st, max counts (snd st)))"

definition mode :: "rat list \<Rightarrow> rat list \<times> nat list" where
  "mode a =
     (if a = [] then ([], [])
      else (let st = fold (mode_step a) (sort (remdups a)) (0, 0) in ([fst st], [snd st])))"

text \<open>Python's \<^verbatim>\<open>xs[0]\<close>.\<close>

definition index0 :: "'a list \<Rightarrow> error + 'a" where
  "index0 xs = (case xs of [] \<Rightarrow> Inl IndexError | x # _ \<Rightarrow> Inr x)"

section \<open>elegir\_imputacion\<close>

definition calcular_iqr :: "rat option list \<Rightarrow> error + rat" where
  "calcular_iqr series =
     (case unpack2 (nanpercentile (dropna series) [25, 75]) of
        Inl e \<Rightarrow> Inl e
      | Inr (q1, q3) \<Rightarrow> Inr (q3 - q1))"

definition imputar_fecha :: "rat \<Rightarrow> rat option list \<Rightarrow> error + rat option list" where
  "imputar_fecha umbral_dispersion grupo =
     (case calcular_iqr grupo of
        Inl e \<Rightarrow> Inl e
      | Inr dispersion \<Rightarrow>
          if dispersion > umbral_dispersion then Inr (fillna grupo (median grupo))
          else (case index0 (fst (mode (dropna grupo))) of
                  Inr m \<Rightarrow> Inr (fillna grupo (Some m))
                | Inl IndexError \<Rightarrow> Inr (fillna grupo (median grupo))
                | Inl e \<Rightarrow> Inl e))"

text \<open>
  \<^verbatim>\<open>df.groupby(agrupacion)\<close>: no key list gives ValueError, an unknown key column
  KeyError. The key of a row is the list of its cells in the grouping columns.
\<close>

fun getitems :: "dataframe \<Rightarrow> string list \<Rightarrow> error + series list" where
  "getitems df [] = Inr []"
| "getitems df (c # cs) =
     (case getitem df c of
        Inl e \<Rightarrow> Inl e
      | Inr s \<Rightarrow> (case getitems df cs of Inl e \<Rightarrow> Inl e | Inr ss \<Rightarrow> Inr (s # ss)))"

definition row_keys :: "dataframe \<Rightarrow> string list \<Rightarrow> error + cell list list" where
  "row_keys df agrupacion =
     (if agrupacion = [] then Inl ValueError
      else (case getitems df agrupacion of
              Inl e \<Rightarrow> Inl e
            | Inr ss \<Rightarrow> Inr (map (\<lambda>i. map (\<lambda>s. cells s ! i) ss) [0..<nrows df])))"

text \<open>
  pandas groups with \<^verbatim>\<open>dropna=True\<close> by default: a row with a null in a grouping
  column belongs to no group. The rows of the group with key \<open>k\<close>, in row order:
\<close>

definition group_rows :: "cell list list \<Rightarrow> cell list \<Rightarrow> nat list" where
  "group_rows keys k = filter (\<lambda>j. keys ! j = k) [0..<length keys]"

definition group_labels :: "cell list list \<Rightarrow> cell list list" where
  "group_labels keys = remdups (filter (\<lambda>k. NA \<notin> set k) keys)"

text \<open>
  The function given to \<^verbatim>\<open>transform\<close> is called with the group's sub-series. The
  numeric reductions of \<open>imputar_fecha\<close> raise TypeError on a series of strings.
\<close>

fun apply_group :: "(rat option list \<Rightarrow> error + rat option list) \<Rightarrow> series \<Rightarrow> error + rat option list" where
  "apply_group f (Float64 vs) = f vs"
| "apply_group f (Object ss) = Inl TypeError"

fun sequence :: "(error + 'a) list \<Rightarrow> error + 'a list" where
  "sequence [] = Inr []"
| "sequence (r # rs) =
     (case r of
        Inl e \<Rightarrow> Inl e
      | Inr x \<Rightarrow> (case sequence rs of Inl e \<Rightarrow> Inl e | Inr xs \<Rightarrow> Inr (x # xs)))"

text \<open>
  \<^verbatim>\<open>SeriesGroupBy.transform(f)\<close>: \<open>f\<close> is called once for each group, an exception
  of \<open>f\<close> is not caught, a result of another length than its group is refused, and the
  results are put back at the rows of their groups. The rows of no group receive NaN.
  (pandas visits the groups in key order and the model in order of first appearance;
  the only difference this could make is which group's exception is seen.)
\<close>

definition transform ::
  "cell list list \<Rightarrow> series \<Rightarrow> (rat option list \<Rightarrow> error + rat option list) \<Rightarrow> error + rat option list" where
  "transform keys col f =
     (let labels = group_labels keys in
      case sequence (map (\<lambda>k. apply_group f (take_rows (group_rows keys k) col)) labels) of
        Inl e \<Rightarrow> Inl e
      | Inr results \<Rightarrow>
          if \<exists>(k, r) \<in> set (zip labels results). length r \<noteq> length (group_rows keys k)
          then Inl ValueError
          else Inr (map (\<lambda>i. case map_of (zip labels results) (keys ! i) of
                               None \<Rightarrow> None
                             | Some r \<Rightarrow> r ! length (filter (\<lambda>j. keys ! j = keys ! i) [0..<i]))
                        [0..<length keys]))"

definition elegir_imputacion ::
  "dataframe \<Rightarrow> string \<Rightarrow> string list \<Rightarrow> rat \<Rightarrow> error + dataframe" where
  "elegir_imputacion df columna agrupacion umbral_dispersion =
     (case row_keys df agrupacion of
        Inl e \<Rightarrow> Inl e
      | Inr keys \<Rightarrow>
          (case getitem df columna of
             Inl e \<Rightarrow> Inl e
           | Inr col \<Rightarrow>
               (case transform keys col (imputar_fecha umbral_dispersion) of
                  Inl e \<Rightarrow> Inl e
                | Inr res \<Rightarrow> Inr (setitem df columna (Float64 res)))))"

section \<open>convertir\_a\_fecha\<close>

text \<open>
  A frame in which some columns have been converted holds datetime columns
  (dtype datetime64, nanoseconds since the epoch, \<open>None\<close> standing for NaT) beside the
  numeric and text ones. The date parser of \<^verbatim>\<open>pd.to_datetime\<close> is a parameter:
  \<open>parse c = None\<close> says that the value \<open>c\<close> cannot be read as a date. With
  \<^verbatim>\<open>errors='coerce'\<close> such a value becomes NaT; a datetime column is returned as
  it is.
\<close>

datatype dseries = Plain series | Datetime64 "int option list"

fun dlen :: "dseries \<Rightarrow> nat" where
  "dlen (Plain s) = len s"
| "dlen (Datetime64 ds) = length ds"

definition parse_cell :: "(cell \<Rightarrow> int option) \<Rightarrow> cell \<Rightarrow> int option" where
  "parse_cell parse c = (case c of NA \<Rightarrow> None | _ \<Rightarrow> parse c)"

fun to_datetime_coerce :: "(cell \<Rightarrow> int option) \<Rightarrow> dseries \<Rightarrow> dseries" where
  "to_datetime_coerce parse (Plain s) = Datetime64 (map (parse_cell parse) (cells s))"
| "to_datetime_coerce parse (Datetime64 ds) = Datetime64 ds"

fun convertir_a_fecha ::
  "(cell \<Rightarrow> int option) \<Rightarrow> dseries frame \<Rightarrow> string list \<Rightarrow> error + dseries frame" where
  "convertir_a_fecha parse df [] = Inr df"
| "convertir_a_fecha parse df (columna # columnas) =
     (case getitem df columna of
        Inl e \<Rightarrow> Inl e
      | Inr s \<Rightarrow> convertir_a_fecha parse (setitem df columna (to_datetime_coerce parse s)) columnas)"

section \<open>limpiar\_texto\<close>

text \<open>
  Python's \<^verbatim>\<open>str.strip()\<close> and \<^verbatim>\<open>str.lower()\<close>, on strings of code points
  below 256: the whitespace characters are U+0009 to U+000D, U+001C to U+0020, U+0085
  and U+00A0; the upper-case letters are A to Z and U+00C0 to U+00DE without the
  multiplication sign U+00D7, each 32 below its lower-case letter.
\<close>

definition isspace :: "char \<Rightarrow> bool" where
  "isspace c = (let n = (of_char c :: nat)
                in (9 \<le> n \<and> n \<le> 13) \<or> (28 \<le> n \<and> n \<le> 32) \<or> n = 133 \<or> n = 160)"

definition strip :: "string \<Rightarrow> string" where
  "strip s = rev (dropWhile isspace (rev (dropWhile isspace s)))"

definition isupper :: "char \<Rightarrow> bool" where
  "isupper c = (let n = (of_char c :: nat)
                in (65 \<le> n \<and> n \<le> 90) \<or> (192 \<le> n \<and> n \<le> 222 \<and> n \<noteq> 215))"

definition lower_char :: "char \<Rightarrow> char" where
  "lower_char c = (if isupper c then char_of ((of_char c :: nat) + 32) else c)"

definition lower :: "string \<Rightarrow> string" where
  "lower s = map lower_char s"

text \<open>\<^verbatim>\<open>Series.dtype\<close>, and the \<^verbatim>\<open>.str\<close> accessor, which only a text series has.\<close>

fun dtype :: "series \<Rightarrow> string" where
  "dtype (Float64 vs) = ''float64''"
| "dtype (Object ss) = ''object''"

fun str_accessor :: "series \<Rightarrow> error + string option list" where
  "str_accessor (Object ss) = Inr ss"
| "str_accessor (Float64 vs) = Inl AttributeError"

text \<open>\<^verbatim>\<open>df[columna] = df[columna].str.f()\<close> for a string method \<open>f\<close>.\<close>

definition str_assign :: "(string \<Rightarrow> string) \<Rightarrow> dataframe \<Rightarrow> string \<Rightarrow> error + dataframe" where
  "str_assign f df columna =
     (case getitem df columna of
        Inl e \<Rightarrow> Inl e
      | Inr s \<Rightarrow>
          (case str_accessor s of
             Inl e \<Rightarrow> Inl e
           | Inr ss \<Rightarrow> Inr (setitem df columna (Object (map (map_option f) ss)))))"

text \<open>The guard of the loop body; \<^verbatim>\<open>and\<close> does not look the column up when the name is unknown.\<close>

definition es_texto :: "dataframe \<Rightarrow> string \<Rightarrow> error + bool" where
  "es_texto df columna =
     (if columna \<in> set (column_names df)
      then (case getitem df columna of Inl e \<Rightarrow> Inl e | Inr s \<Rightarrow> Inr (dtype s = ''object''))
      else Inr False)"

fun limpiar_texto :: "dataframe \<Rightarrow> string list \<Rightarrow> string list \<Rightarrow> error + dataframe" where
  "limpiar_texto df [] conservar_mayusculas = Inr df"
| "limpiar_texto df (columna # columnas) conservar_mayusculas =
     (case es_texto df columna of
        Inl e \<Rightarrow> Inl e
      | Inr False \<Rightarrow> limpiar_texto df columnas conservar_mayusculas
      | Inr True \<Rightarrow>
          (case str_assign strip df columna of
             Inl e \<Rightarrow> Inl e
           | Inr df1 \<Rightarrow>
               if columna \<notin> set conservar_mayusculas
               then (case str_assign lower df1 columna of
                       Inl e \<Rightarrow> Inl e
                     | Inr df2 \<Rightarrow> limpiar_texto df2 columnas conservar_mayusculas)
               else limpiar_texto df1 columnas conservar_mayusculas))"

section \<open>resumen\_nulos\<close>

text \<open>
  The summary has one row for each column of the frame, labelled (\<open>indice\<close>) with the
  column's name. The percentage is a float
  division: without rows every count is 0, and 0 / 0 is NaN (\<open>None\<close>).
\<close>

record resumen_fila =
  indice :: string
  cantidad_nulos :: nat
  porcentaje_nulos :: "rat option"

definition porcentaje :: "nat \<Rightarrow> nat \<Rightarrow> rat option" where
  "porcentaje cantidad n = (if n = 0 then None else Some (of_nat cantidad / of_nat n * 100))"

text \<open>
  \<^verbatim>\<open>sort_values(ascending=False)\<close> reverses the rows, sorts them in increasing
  order and reverses the result, with NaN last. The default sort kind does not promise
  an order among equal keys; the model's sort is stable.
\<close>

definition sort_values_desc :: "resumen_fila list \<Rightarrow> resumen_fila list" where
  "sort_values_desc rs = rev (sort_key porcentaje_nulos (rev rs))"

definition resumen_nulos :: "dataframe \<Rightarrow> resumen_fila list" where
  "resumen_nulos df =
     sort_values_desc
       (map (\<lambda>(c, s). (let cantidad = length (filter id (isnull s))
                        in \<lparr>indice = c, cantidad_nulos = cantidad,
                            porcentaje_nulos = porcentaje cantidad (nrows df)\<rparr>)) df)"

section \<open>evaluar\_fila\<close>

text \<open>
  The function builds new frames and writes a helper column into one of them. To show
  which frame is written, frames live in a heap and are named by their address; a new
  frame gets a fresh address.
\<close>

type_synonym heap = "dataframe list"

definition alloc :: "heap \<Rightarrow> dataframe \<Rightarrow> heap \<times> nat" where
  "alloc h d = (h @ [d], length h)"

text \<open>\<^verbatim>\<open>df[mask]\<close> builds a new frame of the rows at which the mask holds.\<close>

definition filter_rows :: "bool list \<Rightarrow> dataframe \<Rightarrow> dataframe" where
  "filter_rows m df = map (\<lambda>(c, s). (c, take_rows (mask_rows m) s)) df"

text \<open>\<^verbatim>\<open>df.drop(columns=cs)\<close> builds a new frame; an unknown name gives KeyError.\<close>

definition drop_columns :: "dataframe \<Rightarrow> string list \<Rightarrow> error + dataframe" where
  "drop_columns df cs =
     (if set cs \<subseteq> set (column_names df) then Inr (filter (\<lambda>(c, s). c \<notin> set cs) df)
      else Inl KeyError)"

text \<open>\<^verbatim>\<open>df[cs].notnull().sum(axis=1) / m\<close>: for each row the number of non-null cells
  in the chosen columns, divided by \<open>m\<close> as floats (0 / 0 is NaN).\<close>

definition proporcion_no_nulos :: "series list \<Rightarrow> nat \<Rightarrow> nat \<Rightarrow> rat option list" where
  "proporcion_no_nulos ss n m =
     map (\<lambda>i. let cuenta = length (filter (\<lambda>s. notnull s ! i) ss)
               in if m = 0 then None else Some (of_nat cuenta / of_nat m)) [0..<n]"

text \<open>The comparison \<^verbatim>\<open>serie < umbral\<close>; a comparison with NaN is false.\<close>

definition less_than :: "series \<Rightarrow> rat \<Rightarrow> error + bool list" where
  "less_than s umbral =
     (case s of
        Float64 vs \<Rightarrow> Inr (map (\<lambda>v. case v of None \<Rightarrow> False | Some p \<Rightarrow> p < umbral) vs)
      | Object ss \<Rightarrow> Inl TypeError)"

definition evaluar_fila ::
  "heap \<Rightarrow> nat \<Rightarrow> string \<Rightarrow> string list \<Rightarrow> rat \<Rightarrow> error + heap \<times> nat" where
  "evaluar_fila h df columna_nula columnas_clave umbral =
     (case getitem (h ! df) columna_nula of
        Inl e \<Rightarrow> Inl e
      | Inr col \<Rightarrow>
          (let (h1, seleccion) = alloc h (filter_rows (isnull col) (h ! df));
               (h2, df_nulo) = alloc h1 (h1 ! seleccion)
           in case getitems (h2 ! df_nulo) columnas_clave of
                Inl e \<Rightarrow> Inl e
              | Inr claves \<Rightarrow>
                  (let proporcion = Float64 (proporcion_no_nulos claves (nrows (h2 ! df_nulo))
                                               (length columnas_clave));
                       h3 = h2[df_nulo := setitem (h2 ! df_nulo) ''proporcion_datos_importantes'' proporcion]
                   in case getitem (h3 ! df_nulo) ''proporcion_datos_importantes'' of
                        Inl e \<Rightarrow> Inl e
                      | Inr p \<Rightarrow>
                          (case less_than p umbral of
                             Inl e \<Rightarrow> Inl e
                           | Inr m \<Rightarrow>
                               (let (h4, filas_a_eliminar) = alloc h3 (filter_rows m (h3 ! df_nulo))
                                in case drop_columns (h4 ! filas_a_eliminar) [''proporcion_datos_importantes''] of
                                     Inl e \<Rightarrow> Inl e
                                   | Inr d \<Rightarrow> Inr (alloc h4 d))))))"

section \<open>Auxiliary notions of the proofs\<close>

text \<open>
  The invariant of scipy's scan over the unique values: after the values \<open>seen\<close>, the
  state holds the smallest of the most frequent ones and its count.
\<close>

definition mode_inv :: "rat list \<Rightarrow> rat set \<Rightarrow> rat \<times> nat \<Rightarrow> bool" where
  "mode_inv a seen st \<longleftrightarrow>
     (seen = {} \<and> snd st = 0) \<or>
     (fst st \<in> seen \<and> snd st = count_list a (fst st) \<and>
      (\<forall>y \<in> seen. count_list a y \<le> snd st \<and> (count_list a y = snd st \<longrightarrow> fst st \<le> y)))"





text \<open>
  A frame with a row that has no grouping value, and a frame with a group (\<open>B\<close>) that has
  no target value.
\<close>

definition ejemplo_sin_clave :: dataframe where
  "ejemplo_sin_clave =
     [(''grupo'', Object [Some ''A'', None, Some ''A'']),
      (''valor'', Float64 [Some 1, Some 5, None])]"

definition ejemplo_grupo_nulo :: dataframe where
  "ejemplo_grupo_nulo =
     [(''grupo'', Object [Some ''A'', Some ''B'', Some ''B'']),
      (''valor'', Float64 [Some 1, None, None])]"

text \<open>What \<open>limpiar_texto\<close> makes of the column \<open>c\<close> holding the series \<open>s\<close>.\<close>

definition limpiar_serie :: "string list \<Rightarrow> string list \<Rightarrow> string \<Rightarrow> series \<Rightarrow> series" where
  "limpiar_serie columnas conservar c s =
     (case s of
        Object ss \<Rightarrow>
          if c \<in> set columnas
          then Object (map (map_option (if c \<in> set conservar then strip else lower \<circ> strip)) ss)
          else s
      | Float64 vs \<Rightarrow> s)"

text \<open>Whether the column \<open>c\<close> of a frame holds a value in row \<open>i\<close>.\<close>

definition clave_presente :: "dataframe \<Rightarrow> nat \<Rightarrow> string \<Rightarrow> bool" where
  "clave_presente df i c = (case getitem df c of Inl e \<Rightarrow> False | Inr s \<Rightarrow> cells s ! i \<noteq> NA)"

text \<open>Frames for the examples of the other helpers.\<close>

definition ejemplo_texto :: dataframe where
  "ejemplo_texto =
     [(''nombre'', Object [Some ''  Ana '', None, Some ''LUIS'']),
      (''pais'', Object [Some '' CL'', Some ''Ar '', None]),
      (''edad'', Float64 [Some 31, None, Some 40])]"

definition ejemplo_nulos :: dataframe where
  "ejemplo_nulos =
     [(''nombre'', Object [Some ''ana'', None, Some ''luis'', Some ''eva'']),
      (''edad'', Float64 [None, None, Some 40, None]),
      (''pais'', Object [Some ''cl'', Some ''ar'', Some ''pe'', Some ''cl''])]"

definition ejemplo_fechas :: "dseries frame" where
  "ejemplo_fechas =
     [(''alta'', Plain (Object [Some ''2020-01-02'', Some ''ayer'', None])),
      (''edad'', Plain (Float64 [Some 31, None, Some 40]))]"

text \<open>A parser for the examples: it reads the one date \<open>2020-01-02\<close> and nothing else.\<close>

definition parse_ejemplo :: "cell \<Rightarrow> int option" where
  "parse_ejemplo c = (if c = Str ''2020-01-02'' then Some 1577923200000000000 else None)"

definition ejemplo_filas :: dataframe where
  "ejemplo_filas =
     [(''nombre'', Object [Some ''ana'', None, Some ''luis'', Some ''eva'']),
      (''edad'', Float64 [Some 31, None, Some 40, None]),
      (''pais'', Object [None, None, Some ''pe'', None]),
      (''saldo'', Float64 [None, Some 2, None, None])]"

section \<open>Results in a sequence and in a transform\<close>

lemma sequence_Inr_length: "sequence rs = Inr xs \<Longrightarrow> length xs = length rs"
  by (induction rs arbitrary: xs) (auto split: sum.splits)

lemma sequence_map_lookup:
  "sequence (map g ks) = Inr xs \<Longrightarrow> k \<in> set ks \<Longrightarrow>
     \<exists>r. map_of (zip ks xs) k = Some r \<and> g k = Inr r"
proof (induction ks arbitrary: xs)
  case Nil
  then show ?case by simp
next
  case (Cons a ks)
  then show ?case by (auto split: sum.splits)
qed

lemma sequence_map_lookup_None:
  "sequence (map g ks) = Inr xs \<Longrightarrow> k \<notin> set ks \<Longrightarrow> map_of (zip ks xs) k = None"
  by (induction ks arbitrary: xs) (auto split: sum.splits)

lemma sequence_Inl: "sequence rs = Inl e \<Longrightarrow> Inl e \<in> set rs"
  by (induction rs) (auto split: sum.splits)

lemma sequence_Inr_ex: "(\<And>r. r \<in> set rs \<Longrightarrow> \<exists>x. r = Inr x) \<Longrightarrow> \<exists>xs. sequence rs = Inr xs"
proof (induction rs)
  case Nil
  then show ?case by simp
next
  case (Cons r rs)
  then obtain x where "r = Inr x" by force
  moreover from Cons obtain xs where "sequence rs = Inr xs" by force
  ultimately show ?case by simp
qed

lemma filter_upt_rank:
  assumes "i < n" "P i"
  shows "filter P [0..<n] ! length (filter P [0..<i]) = i"
    and "length (filter P [0..<i]) < length (filter P [0..<n])"
proof -
  have "[0..<n] = [0..<i] @ i # [Suc i..<n]"
    using assms(1) by (metis le_add1 less_imp_add_positive upt_add_eq_append upt_conv_Cons plus_nat.add_0 less_or_eq_imp_le add.commute) 
  then have *: "filter P [0..<n] = filter P [0..<i] @ i # filter P [Suc i..<n]"
    using assms(2) by simp
  show "filter P [0..<n] ! length (filter P [0..<i]) = i"
    unfolding * by simp
  show "length (filter P [0..<i]) < length (filter P [0..<n])"
    unfolding * by simp
qed

lemma group_labels_iff: "k \<in> set (group_labels keys) \<longleftrightarrow> k \<in> set keys \<and> NA \<notin> set k"
  by (auto simp: group_labels_def)

lemma transform_length: "transform keys col f = Inr res \<Longrightarrow> length res = length keys"
  by (auto simp: transform_def Let_def split: sum.splits if_splits)

lemma transform_na_key:
  assumes "transform keys col f = Inr res" "i < length keys" "NA \<in> set (keys ! i)"
  shows "res ! i = None"
proof -
  from assms(1) obtain results where
    seq: "sequence (map (\<lambda>k. apply_group f (take_rows (group_rows keys k) col)) (group_labels keys)) = Inr results"
    and res: "res = map (\<lambda>i. case map_of (zip (group_labels keys) results) (keys ! i) of
                               None \<Rightarrow> None
                             | Some r \<Rightarrow> r ! length (filter (\<lambda>j. keys ! j = keys ! i) [0..<i]))
                        [0..<length keys]"
    by (auto simp: transform_def Let_def split: sum.splits if_splits)
  have "keys ! i \<notin> set (group_labels keys)"
    using assms(3) by (simp add: group_labels_iff)
  then have "map_of (zip (group_labels keys) results) (keys ! i) = None"
    using seq by (rule sequence_map_lookup_None[rotated])
  then show ?thesis using assms(2) by (simp add: res)
qed

lemma transform_group:
  assumes "transform keys col f = Inr res" "i < length keys" "NA \<notin> set (keys ! i)"
  shows "\<exists>r. apply_group f (take_rows (group_rows keys (keys ! i)) col) = Inr r
           \<and> length r = length (group_rows keys (keys ! i))
           \<and> res ! i = r ! length (filter (\<lambda>j. keys ! j = keys ! i) [0..<i])"
proof -
  let ?g = "\<lambda>k. apply_group f (take_rows (group_rows keys k) col)"
  from assms(1) obtain results where
    seq: "sequence (map ?g (group_labels keys)) = Inr results"
    and lens: "\<forall>(k, r) \<in> set (zip (group_labels keys) results). length r = length (group_rows keys k)"
    and res: "res = map (\<lambda>i. case map_of (zip (group_labels keys) results) (keys ! i) of
                               None \<Rightarrow> None
                             | Some r \<Rightarrow> r ! length (filter (\<lambda>j. keys ! j = keys ! i) [0..<i]))
                        [0..<length keys]"
    by (auto simp: transform_def Let_def split: sum.splits if_splits)
  have "keys ! i \<in> set (group_labels keys)"
    using assms(2,3) by (simp add: group_labels_iff)
  with seq obtain r where r: "map_of (zip (group_labels keys) results) (keys ! i) = Some r"
    "?g (keys ! i) = Inr r"
    using sequence_map_lookup[of ?g] by blast
  from r(1) have "(keys ! i, r) \<in> set (zip (group_labels keys) results)"
    by (rule map_of_SomeD)
  with lens have "length r = length (group_rows keys (keys ! i))" by auto
  moreover have "res ! i = r ! length (filter (\<lambda>j. keys ! j = keys ! i) [0..<i])"
    using assms(2) r(1) by (simp add: res)
  ultimately show ?thesis using r(2) by blast
qed

section \<open>Median, mode and the choice of imputar\_fecha\<close>

lemma median_quantile:
  assumes "dropna vs \<noteq> []"
  shows "median vs = Some (quantile_linear (sort (dropna vs)) (1 / 2))"
proof -
  define xs where "xs = sort (dropna vs)"
  define n where "n = length xs"
  have n: "n > 0" using assms by (simp add: n_def xs_def)
  show ?thesis
  proof (cases "odd n")
    case True
    then obtain k where k: "n = 2 * k + 1" by (auto elim: oddE)
    have vi: "(1 / 2) * (of_nat n - 1) = (of_nat k :: rat)" by (simp add: k)
    have "quantile_linear xs (1 / 2) = xs ! k"
      unfolding quantile_linear_def Let_def n_def[symmetric] vi by simp
    moreover have "median vs = Some (xs ! k)"
      unfolding median_def Let_def xs_def[symmetric] n_def[symmetric] using True n by (simp add: k)
    ultimately show ?thesis by (simp add: xs_def)
  next
    case False
    then obtain k where k: "n = 2 * k" by (auto elim: evenE)
    with n have k0: "k > 0" by simp
    have vi: "(1 / 2) * (of_nat n - 1) = (of_nat (k - 1) :: rat) + 1 / 2"
      using k0 by (simp add: k of_nat_diff field_simps)
    have "\<lfloor>(of_nat (k - 1) :: rat) + 1 / 2\<rfloor> = int (k - 1)"
      by (simp add: floor_unique)
    then have fl: "nat \<lfloor>(of_nat (k - 1) :: rat) + 1 / 2\<rfloor> = k - 1"
      by simp
    have "quantile_linear xs (1 / 2) = xs ! (k - 1) + (xs ! k - xs ! (k - 1)) * (1 / 2)"
      unfolding quantile_linear_def Let_def n_def[symmetric] vi fl using k0 by (auto simp add: k min_def)
    moreover have "median vs = Some ((xs ! (k - 1) + xs ! k) / 2)"
      unfolding median_def Let_def xs_def[symmetric] n_def[symmetric] using False n by (simp add: k)
    ultimately show ?thesis by (simp add: xs_def field_simps)
  qed
qed

lemma count_list_pos: "0 < count_list a x \<longleftrightarrow> x \<in> set a"
  by (metis count_list_0_iff gr0I less_numeral_extra(3))

lemma fold_mode_step:
  assumes "sorted xs" "distinct xs" "set xs \<subseteq> set a" "\<forall>s \<in> seen. \<forall>x \<in> set xs. s < x"
    "mode_inv a seen st"
  shows "mode_inv a (seen \<union> set xs) (fold (mode_step a) xs st)"
  using assms
proof (induction xs arbitrary: seen st)
  case Nil
  then show ?case by simp
next
  case (Cons x xs)
  have pos: "0 < count_list a x" using Cons.prems(3) by (simp add: count_list_pos)
  have step: "mode_inv a (insert x seen) (mode_step a x st)"
    using Cons.prems(4,5) pos
    by (fastforce simp: mode_inv_def mode_step_def Let_def max_def)
  have "mode_inv a (insert x seen \<union> set xs) (fold (mode_step a) xs (mode_step a x st))"
  proof (rule Cons.IH[OF _ _ _ _ step])
    show "sorted xs" using Cons.prems(1) by simp
    show "distinct xs" using Cons.prems(2) by simp
    show "set xs \<subseteq> set a" using Cons.prems(3) by simp
    show "\<forall>s\<in>insert x seen. \<forall>y\<in>set xs. s < y"
      using Cons.prems(1,2,4) by (auto simp: less_le)
  qed
  then show ?case by simp
qed

lemma mode_spec:
  assumes "a \<noteq> []"
  shows "\<exists>m. fst (mode a) = [m] \<and> m \<in> set a \<and>
           (\<forall>y \<in> set a. count_list a y \<le> count_list a m \<and> (count_list a y = count_list a m \<longrightarrow> m \<le> y))"
proof -
  define st where "st = fold (mode_step a) (sort (remdups a)) (0, 0)"
  have "mode_inv a ({} \<union> set (sort (remdups a))) st"
    unfolding st_def by (rule fold_mode_step) (auto simp: mode_inv_def)
  then have inv: "mode_inv a (set a) st" by simp
  have "set a \<noteq> {}" using assms by simp
  with inv have "fst st \<in> set a" "snd st = count_list a (fst st)"
    "\<forall>y \<in> set a. count_list a y \<le> snd st \<and> (count_list a y = snd st \<longrightarrow> fst st \<le> y)"
    by (auto simp: mode_inv_def)
  moreover have "fst (mode a) = [fst st]"
    using assms by (simp add: mode_def st_def Let_def)
  ultimately show ?thesis by auto
qed

lemma calcular_iqr_empty: "dropna grupo = [] \<Longrightarrow> calcular_iqr grupo = Inl TypeError"
  by (simp add: calcular_iqr_def nanpercentile_def)

lemma calcular_iqr_nonempty:
  "dropna grupo \<noteq> [] \<Longrightarrow>
   calcular_iqr grupo = Inr (quantile_linear (sort (dropna grupo)) (3 / 4) - quantile_linear (sort (dropna grupo)) (1 / 4))"
  by (simp add: calcular_iqr_def nanpercentile_def)

lemma imputar_fecha_empty: "dropna grupo = [] \<Longrightarrow> imputar_fecha u grupo = Inl TypeError"
  by (simp add: imputar_fecha_def calcular_iqr_empty)

lemma imputar_fecha_high:
  assumes "dropna grupo \<noteq> []"
    "quantile_linear (sort (dropna grupo)) (3 / 4) - quantile_linear (sort (dropna grupo)) (1 / 4) > u"
  shows "imputar_fecha u grupo = Inr (fillna grupo (Some (quantile_linear (sort (dropna grupo)) (1 / 2))))"
  using assms by (simp add: imputar_fecha_def calcular_iqr_nonempty median_quantile)

lemma imputar_fecha_low:
  assumes "dropna grupo \<noteq> []"
    "\<not> quantile_linear (sort (dropna grupo)) (3 / 4) - quantile_linear (sort (dropna grupo)) (1 / 4) > u"
  shows "\<exists>m. imputar_fecha u grupo = Inr (fillna grupo (Some m)) \<and> m \<in> set (dropna grupo) \<and>
           (\<forall>y \<in> set (dropna grupo). count_list (dropna grupo) y \<le> count_list (dropna grupo) m
               \<and> (count_list (dropna grupo) y = count_list (dropna grupo) m \<longrightarrow> m \<le> y))"
proof -
  from mode_spec[OF assms(1)] obtain m where m: "fst (mode (dropna grupo)) = [m]" "m \<in> set (dropna grupo)"
    "\<forall>y \<in> set (dropna grupo). count_list (dropna grupo) y \<le> count_list (dropna grupo) m
               \<and> (count_list (dropna grupo) y = count_list (dropna grupo) m \<longrightarrow> m \<le> y)"
    by blast
  have "imputar_fecha u grupo = Inr (fillna grupo (Some m))"
    using assms m(1) by (simp add: imputar_fecha_def calcular_iqr_nonempty index0_def)
  with m show ?thesis by blast
qed

lemma imputar_fecha_cases:
  obtains "dropna grupo = []" "imputar_fecha u grupo = Inl TypeError"
  | v where "dropna grupo \<noteq> []" "imputar_fecha u grupo = Inr (fillna grupo (Some v))"
proof (cases "dropna grupo = []")
  case True
  then show ?thesis using that(1) imputar_fecha_empty by blast
next
  case False
  show ?thesis
  proof (cases "quantile_linear (sort (dropna grupo)) (3 / 4) - quantile_linear (sort (dropna grupo)) (1 / 4) > u")
    case True
    then show ?thesis using that(2) False imputar_fecha_high by blast
  next
    case F: False
    then show ?thesis using that(2) False imputar_fecha_low[OF False F] by blast
  qed
qed

lemma imputar_fecha_error: "imputar_fecha u grupo = Inl e \<Longrightarrow> e = TypeError \<and> dropna grupo = []"
  by (rule imputar_fecha_cases[of grupo u]) auto

lemma imputar_fecha_Inr:
  "imputar_fecha u grupo = Inr r \<Longrightarrow> dropna grupo \<noteq> [] \<and> (\<exists>v. r = fillna grupo (Some v))"
  by (rule imputar_fecha_cases[of grupo u]) auto

section \<open>Frames\<close>

lemma getitem_setitem_same: "getitem (setitem df c s) c = Inr s"
  by (induction df) (auto simp: getitem_def)

lemma getitem_setitem_other: "c' \<noteq> c \<Longrightarrow> getitem (setitem df c s) c' = getitem df c'"
  by (induction df) (auto simp: getitem_def)

lemma getitem_Inr_mem: "getitem df c = Inr s \<Longrightarrow> (c, s) \<in> set df"
  by (auto simp: getitem_def split: option.splits dest: map_of_SomeD)

lemma getitem_Inr_iff_name: "(\<exists>s. getitem df c = Inr s) \<longleftrightarrow> c \<in> set (column_names df)"
  by (auto simp: getitem_def column_names_def map_of_eq_None_iff split: option.splits)
     (metis map_of_eq_None_iff not_Some_eq image_iff fst_conv)

lemma getitem_error: "getitem df c = Inl e \<Longrightarrow> e = KeyError \<and> c \<notin> set (column_names df)"
  by (auto simp: getitem_def column_names_def map_of_eq_None_iff split: option.splits)

lemma column_names_setitem:
  "c \<in> set (column_names df) \<Longrightarrow> column_names (setitem df c s) = column_names df"
  by (induction df) (force simp: column_names_def)+

lemma wf_getitem_len: "wf df \<Longrightarrow> getitem df c = Inr s \<Longrightarrow> len s = nrows df"
  by (auto simp: wf_def dest!: getitem_Inr_mem)

lemma row_keys_length: "row_keys df agrupacion = Inr keys \<Longrightarrow> length keys = nrows df"
  by (auto simp: row_keys_def split: if_splits sum.splits)

lemma fillna_nth:
  "k < length vs \<Longrightarrow> fillna vs v ! k = (case vs ! k of None \<Rightarrow> v | Some y \<Rightarrow> Some y)"
  by (simp add: fillna_def)


lemma dropna_set: "set (dropna vs) = {x. Some x \<in> set vs}"
  by (induction vs) (auto simp: dropna_def List.map_filter_def)

lemma dropna_Nil_iff: "dropna vs = [] \<longleftrightarrow> (\<forall>v \<in> set vs. v = None)"
  using dropna_set[of vs] by (metis (mono_tags, lifting) Collect_empty_eq empty_set mem_Collect_eq not_Some_eq set_empty2)

text \<open>What a returning call did.\<close>

lemma elegir_imputacion_InrD:
  assumes "elegir_imputacion df columna agrupacion umbral = Inr df'"
  obtains keys col res where "row_keys df agrupacion = Inr keys" "getitem df columna = Inr col"
    "transform keys col (imputar_fecha umbral) = Inr res" "df' = setitem df columna (Float64 res)"
  using assms by (auto simp: elegir_imputacion_def split: sum.splits)

text \<open>The value a row of a group receives.\<close>

lemma transform_imputar_row:
  assumes tr: "transform keys (Float64 vs) (imputar_fecha umbral) = Inr res"
    and len: "length vs = length keys"
    and i: "i < length keys" "NA \<notin> set (keys ! i)"
  shows "\<exists>r. imputar_fecha umbral (map ((!) vs) (group_rows keys (keys ! i))) = Inr r
           \<and> res ! i = (case vs ! i of None \<Rightarrow> r ! length (filter (\<lambda>j. keys ! j = keys ! i) [0..<i])
                                     | Some y \<Rightarrow> Some y)
           \<and> (\<exists>v. r = fillna (map ((!) vs) (group_rows keys (keys ! i))) (Some v))
           \<and> length (filter (\<lambda>j. keys ! j = keys ! i) [0..<i]) < length (group_rows keys (keys ! i))
           \<and> map ((!) vs) (group_rows keys (keys ! i)) ! length (filter (\<lambda>j. keys ! j = keys ! i) [0..<i]) = vs ! i"
proof -
  let ?rk = "length (filter (\<lambda>j. keys ! j = keys ! i) [0..<i])"
  let ?grp = "map ((!) vs) (group_rows keys (keys ! i))"
  from transform_group[OF tr i] obtain r where
    r: "imputar_fecha umbral ?grp = Inr r" "res ! i = r ! ?rk"
    by auto
  from imputar_fecha_Inr[OF r(1)] obtain v where v: "r = fillna ?grp (Some v)" by blast
  have rk: "?rk < length (group_rows keys (keys ! i))" "group_rows keys (keys ! i) ! ?rk = i"
    unfolding group_rows_def using filter_upt_rank[of i "length keys" "\<lambda>j. keys ! j = keys ! i"] i(1)
    by simp_all
  then have at: "?grp ! ?rk = vs ! i" by simp
  have "res ! i = (case vs ! i of None \<Rightarrow> r ! ?rk | Some y \<Rightarrow> Some y)"
    using r(2) v rk(1) at by (simp add: fillna_nth split: option.splits)
  with r(1) v rk(1) at show ?thesis by blast
qed

lemma getitem_Inr_name: "getitem df c = Inr s \<Longrightarrow> c \<in> set (column_names df)"
  by (auto simp: column_names_def dest!: getitem_Inr_mem intro: rev_image_eqI)

lemma group_rows_mem: "j \<in> set (group_rows keys k) \<longleftrightarrow> j < length keys \<and> keys ! j = k"
  by (auto simp: group_rows_def)

text \<open>A group (of rows with a key) without any value makes the call raise.\<close>

lemma sequence_map_Inl:
  assumes "k \<in> set ks" "g k = Inl e" "\<And>k' e'. g k' = Inl e' \<Longrightarrow> e' = e"
  shows "sequence (map g ks) = Inl e"
proof -
  have "\<not> (\<exists>xs. sequence (map g ks) = Inr xs)"
    using assms(1,2) sequence_map_lookup[of g ks _ k] by fastforce
  then obtain e' where e': "sequence (map g ks) = Inl e'"
    by (cases "sequence (map g ks)") auto
  from sequence_Inl[OF this] obtain k' where "g k' = Inl e'" by auto
  with assms(3) e' show ?thesis by simp
qed

lemma elegir_imputacion_all_null_group:
  assumes "wf df" "row_keys df agrupacion = Inr keys" "getitem df columna = Inr (Float64 vs)"
    and "i < nrows df" "NA \<notin> set (keys ! i)"
    and "\<forall>j < nrows df. keys ! j = keys ! i \<longrightarrow> vs ! j = None"
  shows "elegir_imputacion df columna agrupacion umbral = Inl TypeError"
proof -
  have n: "length keys = nrows df" by (rule row_keys_length[OF assms(2)])
  let ?g = "\<lambda>k. apply_group (imputar_fecha umbral) (take_rows (group_rows keys k) (Float64 vs))"
  have "\<forall>v \<in> set (map ((!) vs) (group_rows keys (keys ! i))). v = None"
    using assms(6) n by (auto simp: group_rows_mem)
  then have bad: "?g (keys ! i) = Inl TypeError"
    by (simp add: imputar_fecha_empty dropna_Nil_iff)
  have "keys ! i \<in> set (group_labels keys)"
    using assms(4,5) n by (simp add: group_labels_iff)
  moreover note bad
  moreover have "e' = TypeError" if "?g k' = Inl e'" for k' e'
    using that imputar_fecha_error by auto
  ultimately have "sequence (map ?g (group_labels keys)) = Inl TypeError"
    by (rule sequence_map_Inl[where g = ?g and k = "keys ! i"])
  then have "transform keys (Float64 vs) (imputar_fecha umbral) = Inl TypeError"
    by (simp add: transform_def)
  then show ?thesis using assms(2,3) by (simp add: elegir_imputacion_def)
qed

text \<open>Frame of a returning call.\<close>

lemma elegir_imputacion_frame:
  assumes "wf df"
    and "elegir_imputacion df columna agrupacion umbral = Inr df'"
    and "row_keys df agrupacion = Inr keys"
    and "getitem df columna = Inr (Float64 vs)"
  shows "column_names df' = column_names df"
    and "\<And>c. c \<noteq> columna \<Longrightarrow> getitem df' c = getitem df c"
    and "\<exists>vs'. getitem df' columna = Inr (Float64 vs') \<and> length vs' = length vs \<and>
           (\<forall>i < nrows df. NA \<notin> set (keys ! i) \<and> vs ! i \<noteq> None \<longrightarrow> vs' ! i = vs ! i) \<and>
           (\<forall>i < nrows df. NA \<in> set (keys ! i) \<longrightarrow> vs' ! i = None)"
proof -
  from assms(2,3,4) obtain res where
    tr: "transform keys (Float64 vs) (imputar_fecha umbral) = Inr res"
    and df': "df' = setitem df columna (Float64 res)"
    by (auto elim!: elegir_imputacion_InrD)
  have n: "length keys = nrows df" by (rule row_keys_length[OF assms(3)])
  have len: "length vs = length keys"
    using wf_getitem_len[OF assms(1,4)] n by simp
  have "columna \<in> set (column_names df)"
    using assms(4) by (rule getitem_Inr_name)
  then show "column_names df' = column_names df"
    by (simp add: df' column_names_setitem)
  show "getitem df' c = getitem df c" if "c \<noteq> columna" for c
    using that by (simp add: df' getitem_setitem_other)
  have "res ! i = vs ! i" if "i < nrows df" "NA \<notin> set (keys ! i)" "vs ! i \<noteq> None" for i
  proof -
    from that n have i: "i < length keys" by simp
    from transform_imputar_row[OF tr len i that(2)] that(3) show ?thesis
      by (auto split: option.splits)
  qed
  moreover have "res ! i = None" if "i < nrows df" "NA \<in> set (keys ! i)" for i
    using transform_na_key[OF tr] that n by simp
  moreover have "getitem df' columna = Inr (Float64 res)"
    by (simp add: df' getitem_setitem_same)
  moreover have "length res = length vs"
    using transform_length[OF tr] len by simp
  ultimately show "\<exists>vs'. getitem df' columna = Inr (Float64 vs') \<and> length vs' = length vs \<and>
           (\<forall>i < nrows df. NA \<notin> set (keys ! i) \<and> vs ! i \<noteq> None \<longrightarrow> vs' ! i = vs ! i) \<and>
           (\<forall>i < nrows df. NA \<in> set (keys ! i) \<longrightarrow> vs' ! i = None)"
    by blast
qed





section \<open>Strings\<close>

lemma of_char_lower: "isupper c \<Longrightarrow> (of_char (lower_char c) :: nat) = of_char c + 32"
  by (auto simp: isupper_def lower_char_def Let_def)

lemma lower_char_not_upper: "\<not> isupper (lower_char c)"
proof (cases "isupper c")
  case True
  then show ?thesis
    using of_char_lower[OF True] by (auto simp: isupper_def Let_def)
next
  case False
  then show ?thesis by (simp add: lower_char_def)
qed

lemma isspace_lower_char: "isspace (lower_char c) = isspace c"
proof (cases "isupper c")
  case True
  then show ?thesis
    using of_char_lower[OF True] by (auto simp: isupper_def isspace_def Let_def)
next
  case False
  then show ?thesis by (simp add: lower_char_def)
qed

lemma lower_idem: "lower (lower s) = lower s"
  by (simp add: lower_def lower_char_def lower_char_not_upper[unfolded lower_char_def])

lemma dropWhile_isspace_lower: "dropWhile isspace (lower s) = lower (dropWhile isspace s)"
  by (induction s) (auto simp: lower_def isspace_lower_char)

lemma strip_lower: "strip (lower s) = lower (strip s)"
proof -
  have "rev (lower s) = lower (rev s)" for s by (simp add: lower_def rev_map)
  then show ?thesis
    by (simp add: strip_def dropWhile_isspace_lower)
qed

lemma strip_decomp:
  "\<exists>a b. s = a @ strip s @ b \<and> (\<forall>c \<in> set a. isspace c) \<and> (\<forall>c \<in> set b. isspace c)"
proof -
  let ?t = "dropWhile isspace s"
  have "s = takeWhile isspace s @ ?t" by simp
  moreover have "rev ?t = takeWhile isspace (rev ?t) @ dropWhile isspace (rev ?t)" by simp
  then have "?t = strip s @ rev (takeWhile isspace (rev ?t))"
    unfolding strip_def by (metis rev_append rev_rev_ident)
  ultimately have "s = takeWhile isspace s @ strip s @ rev (takeWhile isspace (rev ?t))"
    by simp
  moreover have "\<forall>c \<in> set (takeWhile isspace s). isspace c"
    by (auto dest: set_takeWhileD)
  moreover have "\<forall>c \<in> set (rev (takeWhile isspace (rev ?t))). isspace c"
    by (auto dest: set_takeWhileD)
  ultimately show ?thesis by blast
qed

lemma strip_ends:
  assumes "strip s \<noteq> []"
  shows "\<not> isspace (hd (strip s))" "\<not> isspace (last (strip s))"
proof -
  let ?t = "dropWhile isspace s"
  let ?u = "dropWhile isspace (rev ?t)"
  have u: "?u \<noteq> []" using assms by (simp add: strip_def)
  then have "\<not> isspace (hd ?u)" by (rule hd_dropWhile)
  then show "\<not> isspace (last (strip s))"
    using u by (simp add: strip_def last_rev)
  have t: "?t \<noteq> []"
  proof
    assume "?t = []"
    then have "?u = []" by (simp only: rev.simps dropWhile.simps)
    with u show False by blast
  qed
  have "rev ?t = takeWhile isspace (rev ?t) @ ?u" by simp
  then have "?t = rev ?u @ rev (takeWhile isspace (rev ?t))"
    by (metis rev_append rev_rev_ident)
  then have "hd ?t = hd (rev ?u)" using u by (metis hd_append2 rev_is_Nil_conv)
  moreover have "\<not> isspace (hd ?t)" using t by (rule hd_dropWhile)
  ultimately show "\<not> isspace (hd (strip s))" by (simp add: strip_def)
qed

lemma dropWhile_id_hd: "(xs \<noteq> [] \<Longrightarrow> \<not> P (hd xs)) \<Longrightarrow> dropWhile P xs = xs"
  by (cases xs) auto

lemma strip_idem: "strip (strip s) = strip s"
proof (cases "strip s = []")
  case True
  have "strip [] = []" by (simp add: strip_def)
  then show ?thesis by (simp only: True)
next
  case False
  have 1: "dropWhile isspace (strip s) = strip s"
    using strip_ends(1)[OF False] by (intro dropWhile_id_hd)
  have "dropWhile isspace (rev (strip s)) = rev (strip s)"
    using strip_ends(2)[OF False] False by (intro dropWhile_id_hd) (simp add: hd_rev)
  with 1 show ?thesis by (simp add: strip_def[of "strip s"])
qed

lemma limpieza_idem:
  "(if b then strip else lower \<circ> strip) ((if b then strip else lower \<circ> strip) x)
     = (if b then strip else lower \<circ> strip) x"
  by (simp add: strip_idem strip_lower lower_idem)

lemma getitem_distinct: "distinct (map fst df) \<Longrightarrow> (c, s) \<in> set df \<Longrightarrow> getitem df c = Inr s"
  by (simp add: getitem_def)

lemma setitem_map:
  "distinct (map fst df) \<Longrightarrow> c \<in> fst ` set df \<Longrightarrow>
     setitem df c s = map (\<lambda>(c', s'). if c' = c then (c, s) else (c', s')) df"
proof (induction df)
  case Nil
  then show ?case by simp
next
  case (Cons a df)
  obtain c' s' where a: "a = (c', s')" by (cases a)
  show ?case
  proof (cases "c' = c")
    case True
    then have "c \<notin> fst ` set df" using Cons.prems(1) a by auto
    then have "map (\<lambda>(c', s'). if c' = c then (c, s) else (c', s')) df = df"
      by (intro map_idI) (auto simp: rev_image_eqI)
    then show ?thesis using True a by simp
  next
    case False
    then show ?thesis using Cons a by auto
  qed
qed

lemma es_texto_eq:
  "es_texto df c = Inr (\<exists>ss. getitem df c = Inr (Object ss))"
proof (cases "map_of df c")
  case None
  then have "c \<notin> set (column_names df)"
    by (simp add: column_names_def map_of_eq_None_iff)
  then show ?thesis using None by (simp add: es_texto_def getitem_def)
next
  case (Some s)
  then have "c \<in> set (column_names df)"
    by (auto simp: column_names_def dest!: map_of_SomeD intro: rev_image_eqI)
  then show ?thesis using Some by (cases s) (auto simp: es_texto_def getitem_def)
qed

lemma str_assign_Object:
  "getitem df c = Inr (Object ss) \<Longrightarrow>
     str_assign f df c = Inr (setitem df c (Object (map (map_option f) ss)))"
  by (simp add: str_assign_def)

text \<open>One round of the loop on a text column.\<close>

lemma limpiar_texto_Cons_texto:
  assumes "getitem df c = Inr (Object ss)"
  shows "limpiar_texto df (c # cs) conservar =
           limpiar_texto (setitem df c (Object (map (map_option (if c \<in> set conservar then strip else lower \<circ> strip)) ss)))
              cs conservar"
proof -
  let ?df1 = "setitem df c (Object (map (map_option strip) ss))"
  have 1: "str_assign strip df c = Inr ?df1" by (rule str_assign_Object[OF assms])
  have 2: "str_assign lower ?df1 c = Inr (setitem ?df1 c (Object (map (map_option lower) (map (map_option strip) ss))))"
    by (rule str_assign_Object) (rule getitem_setitem_same)
  have 3: "setitem (setitem df c x) c y = setitem df c y" for x y :: series
    by (induction df) auto
  have t: "es_texto df c = Inr True" using assms by (simp add: es_texto_eq)
  show ?thesis
    by (simp add: t 1 2 3 option.map_comp comp_def)
qed

lemma limpiar_texto_Cons_otro:
  assumes "\<not> (\<exists>ss. getitem df c = Inr (Object ss))"
  shows "limpiar_texto df (c # cs) conservar = limpiar_texto df cs conservar"
  using assms by (simp add: es_texto_eq)

lemma limpiar_texto_closed_form:
  assumes "distinct (column_names df)"
  shows "limpiar_texto df columnas conservar
           = Inr (map (\<lambda>(c, s). (c, limpiar_serie columnas conservar c s)) df)"
  using assms
proof (induction columnas arbitrary: df)
  case Nil
  have "map (\<lambda>(c, s). (c, limpiar_serie [] conservar c s)) df = df"
    by (intro map_idI) (auto simp: limpiar_serie_def split: series.splits)
  then show ?case by simp
next
  case (Cons col cols)
  have d: "distinct (map fst df)" using Cons.prems by (simp add: column_names_def)
  show ?case
  proof (cases "\<exists>ss. getitem df col = Inr (Object ss)")
    case False
    have "limpiar_serie (col # cols) conservar c s = limpiar_serie cols conservar c s"
      if "(c, s) \<in> set df" for c s
      using False getitem_distinct[OF d that]
      by (cases s) (auto simp: limpiar_serie_def)
    then have "map (\<lambda>(c, s). (c, limpiar_serie (col # cols) conservar c s)) df
             = map (\<lambda>(c, s). (c, limpiar_serie cols conservar c s)) df"
      by (intro map_cong) auto
    then show ?thesis
      using limpiar_texto_Cons_otro[OF False] Cons.IH[OF Cons.prems] by simp
  next
    case True
    then obtain ss where ss: "getitem df col = Inr (Object ss)" by blast
    let ?op = "if col \<in> set conservar then strip else lower \<circ> strip"
    let ?new = "Object (map (map_option ?op) ss)"
    let ?df1 = "setitem df col ?new"
    have mem: "col \<in> fst ` set df"
      using getitem_Inr_mem[OF ss] by (auto intro: rev_image_eqI)
    have df1: "?df1 = map (\<lambda>(c', s'). if c' = col then (col, ?new) else (c', s')) df"
      by (rule setitem_map[OF d mem])
    have names: "column_names ?df1 = column_names df"
      unfolding df1 by (auto simp: column_names_def split: prod.splits)
    then have d1: "distinct (column_names ?df1)" using Cons.prems by simp
    have "limpiar_serie cols conservar (fst p') (snd p') = limpiar_serie (col # cols) conservar c s"
      if "(c, s) \<in> set df" "p' = (if c = col then (col, ?new) else (c, s))" for c s p'
    proof (cases "c = col")
      case True
      then have "s = Object ss" using getitem_distinct[OF d that(1)] ss by simp
      then show ?thesis using True that(2)
        by (auto simp: limpiar_serie_def option.map_comp comp_def strip_idem strip_lower lower_idem)
    next
      case False
      then show ?thesis using that(2) by (cases s) (auto simp: limpiar_serie_def)
    qed
    then have "map (\<lambda>(c, s). (c, limpiar_serie cols conservar c s)) ?df1
             = map (\<lambda>(c, s). (c, limpiar_serie (col # cols) conservar c s)) df"
      unfolding df1 by (auto simp: split_beta)
    then show ?thesis
      using limpiar_texto_Cons_texto[OF ss] Cons.IH[OF d1] by simp
  qed
qed

lemma limpiar_texto_invariant:
  "\<exists>df'. limpiar_texto df columnas conservar = Inr df' \<and> column_names df' = column_names df \<and>
         (\<forall>c. \<not> (\<exists>ss. getitem df c = Inr (Object ss)) \<longrightarrow> getitem df' c = getitem df c) \<and>
         (\<forall>c. (\<exists>ss. getitem df c = Inr (Object ss)) \<longrightarrow> (\<exists>ss. getitem df' c = Inr (Object ss)))"
proof (induction columnas arbitrary: df)
  case Nil
  then show ?case by simp
next
  case (Cons col cols)
  show ?case
  proof (cases "\<exists>ss. getitem df col = Inr (Object ss)")
    case False
    then show ?thesis using Cons.IH[of df] limpiar_texto_Cons_otro[OF False] by simp
  next
    case True
    then obtain ss where ss: "getitem df col = Inr (Object ss)" by blast
    define new where "new = Object (map (map_option (if col \<in> set conservar then strip else lower \<circ> strip)) ss)"
    define df1 where "df1 = setitem df col new"
    have run: "limpiar_texto df (col # cols) conservar = limpiar_texto df1 cols conservar"
      unfolding df1_def new_def by (rule limpiar_texto_Cons_texto[OF ss])
    have names: "column_names df1 = column_names df"
      unfolding df1_def using ss by (intro column_names_setitem) (rule getitem_Inr_name)
    have same: "getitem df1 col = Inr new" by (simp add: df1_def getitem_setitem_same)
    have other: "getitem df1 c = getitem df c" if "c \<noteq> col" for c
      using that by (simp add: df1_def getitem_setitem_other)
    from Cons.IH[of df1] obtain df' where df':
      "limpiar_texto df1 cols conservar = Inr df'" "column_names df' = column_names df1"
      "\<forall>c. \<not> (\<exists>ss. getitem df1 c = Inr (Object ss)) \<longrightarrow> getitem df' c = getitem df1 c"
      "\<forall>c. (\<exists>ss. getitem df1 c = Inr (Object ss)) \<longrightarrow> (\<exists>ss. getitem df' c = Inr (Object ss))"
      by blast
    have "getitem df' c = getitem df c" if "\<not> (\<exists>ss. getitem df c = Inr (Object ss))" for c
    proof -
      from that ss have "c \<noteq> col" by auto
      with other that df'(3) show ?thesis by simp
    qed
    moreover have "\<exists>ss. getitem df' c = Inr (Object ss)" if "\<exists>ss. getitem df c = Inr (Object ss)" for c
    proof (cases "c = col")
      case True
      then show ?thesis using df'(4) same by (simp add: new_def)
    next
      case False
      then show ?thesis using df'(4) other that by simp
    qed
    ultimately show ?thesis using run df'(1,2) names by simp
  qed
qed

section \<open>Summaries, dates and row selection\<close>

lemma isnull_count: "length (filter id (isnull s)) = length (filter (\<lambda>x. x = NA) (cells s))"
  by (simp add: isnull_def filter_map comp_def)

lemma sort_values_desc_mset: "mset (sort_values_desc rs) = mset rs"
  by (simp add: sort_values_desc_def)

lemma sort_values_desc_sorted:
  "sorted_wrt (\<lambda>a b. porcentaje_nulos a \<ge> porcentaje_nulos b) (sort_values_desc rs)"
proof -
  have "sorted (map porcentaje_nulos (sort_key porcentaje_nulos (rev rs)))"
    by (rule sorted_sort_key)
  then have "sorted_wrt (\<lambda>a b. porcentaje_nulos a \<le> porcentaje_nulos b) (sort_key porcentaje_nulos (rev rs))"
    by (simp add: sorted_map)
  then show ?thesis
    unfolding sort_values_desc_def by (simp add: sorted_wrt_rev)
qed

lemma to_datetime_coerce_idem:
  "to_datetime_coerce parse (to_datetime_coerce parse s) = to_datetime_coerce parse s"
  by (cases s) simp_all

lemma convertir_a_fecha_invariant:
  assumes "\<forall>c \<in> set columnas. c \<in> set (column_names df)"
  shows "\<exists>df'. convertir_a_fecha parse df columnas = Inr df' \<and> column_names df' = column_names df \<and>
           (\<forall>c s. getitem df c = Inr s \<longrightarrow>
               getitem df' c = Inr (if c \<in> set columnas then to_datetime_coerce parse s else s))"
  using assms
proof (induction columnas arbitrary: df)
  case Nil
  then show ?case by simp
next
  case (Cons col cols)
  from Cons.prems have "col \<in> set (column_names df)" by simp
  then obtain s0 where s0: "getitem df col = Inr s0"
    using getitem_Inr_iff_name[of df col] by blast
  define df1 where "df1 = setitem df col (to_datetime_coerce parse s0)"
  have run: "convertir_a_fecha parse df (col # cols) = convertir_a_fecha parse df1 cols"
    by (simp add: s0 df1_def)
  have names: "column_names df1 = column_names df"
    unfolding df1_def by (rule column_names_setitem) fact
  have same: "getitem df1 col = Inr (to_datetime_coerce parse s0)"
    by (simp add: df1_def getitem_setitem_same)
  have other: "getitem df1 c = getitem df c" if "c \<noteq> col" for c
    using that by (simp add: df1_def getitem_setitem_other)
  have "\<forall>c \<in> set cols. c \<in> set (column_names df1)" using Cons.prems names by simp
  from Cons.IH[OF this] obtain df' where df':
    "convertir_a_fecha parse df1 cols = Inr df'" "column_names df' = column_names df1"
    "\<forall>c s. getitem df1 c = Inr s \<longrightarrow>
        getitem df' c = Inr (if c \<in> set cols then to_datetime_coerce parse s else s)"
    by blast
  have "getitem df' c = Inr (if c \<in> set (col # cols) then to_datetime_coerce parse s else s)"
    if "getitem df c = Inr s" for c s
  proof (cases "c = col")
    case True
    with that s0 have "s = s0" by simp
    then show ?thesis using True df'(3) same by (simp add: to_datetime_coerce_idem)
  next
    case False
    then show ?thesis using df'(3) other that by simp
  qed
  with run df'(1,2) names show ?case by simp
qed

lemma len_cells: "length (cells s) = len s"
  by (cases s) simp_all

lemma len_take_rows: "len (take_rows js s) = length js"
  by (cases s) simp_all

lemma cells_take_rows:
  "k < length js \<Longrightarrow> js ! k < len s \<Longrightarrow> cells (take_rows js s) ! k = cells s ! (js ! k)"
  by (cases s) simp_all

lemma take_rows_take_rows:
  "\<forall>j \<in> set js2. j < length js1 \<Longrightarrow> take_rows js2 (take_rows js1 s) = take_rows (map ((!) js1) js2) s"
  by (cases s) simp_all

lemma map_nth_filter: "map ((!) js) (filter (\<lambda>j. Q (js ! j)) [0..<length js]) = filter Q js"
proof (induction js rule: rev_induct)
  case Nil
  then show ?case by simp
next
  case (snoc x js)
  have 1: "filter (\<lambda>j. Q ((js @ [x]) ! j)) [0..<length js] = filter (\<lambda>j. Q (js ! j)) [0..<length js]"
    by (intro filter_cong) (auto simp: nth_append)
  have 2: "map ((!) (js @ [x])) (filter (\<lambda>j. Q (js ! j)) [0..<length js])
               = map ((!) js) (filter (\<lambda>j. Q (js ! j)) [0..<length js])"
    by (intro map_cong) (auto simp: nth_append)
  have "map ((!) (js @ [x])) (filter (\<lambda>j. Q ((js @ [x]) ! j)) [0..<length (js @ [x])])
          = map ((!) (js @ [x])) (filter (\<lambda>j. Q ((js @ [x]) ! j)) [0..<length js])
            @ (if Q x then [x] else [])"
    by simp
  also have "\<dots> = filter Q js @ (if Q x then [x] else [])"
    unfolding 1 2 snoc.IH ..
  finally show ?case by simp
qed

lemma mask_rows_map: "mask_rows (map P xs) = filter (\<lambda>i. P (xs ! i)) [0..<length xs]"
  unfolding mask_rows_def by (intro filter_cong) auto

lemma mask_rows_bound: "j \<in> set (mask_rows m) \<Longrightarrow> j < length m"
  by (simp add: mask_rows_def)

lemma getitem_filter_rows:
  "getitem (filter_rows m df) c =
     (case getitem df c of Inl e \<Rightarrow> Inl e | Inr s \<Rightarrow> Inr (take_rows (mask_rows m) s))"
proof -
  have "map_of (map (\<lambda>(c, s). (c, take_rows (mask_rows m) s)) df) c
          = map_option (take_rows (mask_rows m)) (map_of df c)"
    by (induction df) auto
  then show ?thesis
    by (simp add: getitem_def filter_rows_def split: option.splits)
qed

lemma getitems_filter_rows:
  "getitems (filter_rows m df) cs =
     (case getitems df cs of Inl e \<Rightarrow> Inl e | Inr ss \<Rightarrow> Inr (map (take_rows (mask_rows m)) ss))"
  by (induction cs) (auto simp: getitem_filter_rows split: sum.splits)

lemma getitems_Inr:
  "set cs \<subseteq> set (column_names df) \<Longrightarrow>
     \<exists>ss. getitems df cs = Inr ss \<and> length ss = length cs \<and> (\<forall>k < length cs. getitem df (cs ! k) = Inr (ss ! k))"
proof (induction cs)
  case Nil
  then show ?case by simp
next
  case (Cons c cs)
  then obtain s where s: "getitem df c = Inr s"
    using getitem_Inr_iff_name[of df c] by auto
  from Cons obtain ss where ss: "getitems df cs = Inr ss" "length ss = length cs"
    "\<forall>k < length cs. getitem df (cs ! k) = Inr (ss ! k)" by auto
  have "\<forall>k < length (c # cs). getitem df ((c # cs) ! k) = Inr ((s # ss) ! k)"
    using s ss(3) by (auto simp: nth_Cons split: nat.splits)
  then show ?case using s ss(1,2) by simp
qed

lemma column_names_filter_rows: "column_names (filter_rows m df) = column_names df"
  by (auto simp: column_names_def filter_rows_def)

lemma nrows_filter_rows: "df \<noteq> [] \<Longrightarrow> nrows (filter_rows m df) = length (mask_rows m)"
  by (cases df) (auto simp: nrows_def filter_rows_def len_take_rows)

lemma setitem_append: "c \<notin> set (column_names df) \<Longrightarrow> setitem df c s = df @ [(c, s)]"
  by (induction df) (auto simp: column_names_def)

lemma filter_rows_filter_rows:
  assumes "length m2 = length (mask_rows m1)"
  shows "filter_rows m2 (filter_rows m1 df)
           = map (\<lambda>(c, s). (c, take_rows (map ((!) (mask_rows m1)) (mask_rows m2)) s)) df"
proof -
  have "\<forall>j \<in> set (mask_rows m2). j < length (mask_rows m1)"
    using assms mask_rows_bound[of _ m2] by auto
  then show ?thesis
    by (simp add: filter_rows_def take_rows_take_rows split_beta)
qed

lemma rows_take:
  assumes "wf df" "df \<noteq> []" "\<forall>j \<in> set js. j < nrows df"
  shows "rows (map (\<lambda>(c, s). (c, take_rows js s)) df) = map (row_at df) js"
proof -
  let ?df' = "map (\<lambda>(c, s). (c, take_rows js s)) df"
  have n: "nrows ?df' = length js"
    using assms(2) by (cases df) (auto simp: nrows_def len_take_rows)
  have "row_at ?df' k = row_at df (js ! k)" if "k < length js" for k
  proof -
    have "cells (take_rows js s) ! k = cells s ! (js ! k)" if "(c, s) \<in> set df" for c s
    proof -
      have "len s = nrows df" using assms(1) that by (auto simp: wf_def)
      then show ?thesis using assms(3) \<open>k < length js\<close> by (simp add: cells_take_rows)
    qed
    then show ?thesis
      by (auto simp: row_at_def split_beta)
  qed
  then show ?thesis
    unfolding rows_def n by (intro nth_equalityI) auto
qed

lemma getitems_the:
  "set cs \<subseteq> set (column_names df) \<Longrightarrow> getitems df cs = Inr (map (\<lambda>c. the (map_of df c)) cs)"
proof (induction cs)
  case Nil
  then show ?case by simp
next
  case (Cons c cs)
  then obtain s where "getitem df c = Inr s"
    using getitem_Inr_iff_name[of df c] by auto
  then have "getitem df c = Inr (the (map_of df c))"
    by (auto simp: getitem_def split: option.splits)
  with Cons show ?case by simp
qed

lemma getitem_the: "c \<in> set (column_names df) \<Longrightarrow> getitem df c = Inr (the (map_of df c))"
  using getitem_Inr_iff_name[of df c] by (auto simp: getitem_def split: option.splits)

lemma notnull_nth: "i < len s \<Longrightarrow> notnull s ! i = (cells s ! i \<noteq> NA)"
  by (simp add: notnull_def len_cells)

lemma isnull_nth: "i < len s \<Longrightarrow> isnull s ! i = (cells s ! i = NA)"
  by (simp add: isnull_def len_cells)

lemma length_isnull: "length (isnull s) = len s"
  by (simp add: isnull_def len_cells)

lemma drop_helper:
  assumes "p \<notin> set (column_names df)"
  shows "drop_columns (filter_rows m (df @ [(p, s)])) [p] = Inr (filter_rows m df)"
proof -
  have "filter (\<lambda>(c, s). c \<noteq> p) (filter_rows m df) = filter_rows m df"
    using assms by (intro filter_True) (force simp: filter_rows_def column_names_def)
  then show ?thesis
    by (simp add: drop_columns_def filter_rows_def column_names_def)
qed

section \<open>Runs of the imputer that change nothing\<close>










lemma nrows_setitem:
  assumes "c \<in> set (column_names df)" "len s = nrows df"
  shows "nrows (setitem df c s) = nrows df"
  using assms by (cases df) (auto simp: nrows_def column_names_def)




section \<open>Claims about elegir\_imputacion\<close>







text \<open>
  Claim C3: a group whose target values are all null is to leave the call without an
  exception. The evaluation below shows what the call does instead: the interquartile
  range of the empty set of values is asked of numpy, which answers with a scalar, and
  unpacking it raises TypeError, an exception the handler for IndexError does not catch.
\<close>

theorem elegir_imputacion_all_null_raises:
  "calcular_iqr [None, None] = Inl TypeError \<and>
   imputar_fecha 60 [None, None] = Inl TypeError \<and>
   elegir_imputacion [(''grupo'', Object [Some ''A'', Some ''A'']), (''valor'', Float64 [None, None])]
       ''valor'' [''grupo''] 60 = Inl TypeError"
  by code_simp

text \<open>
  Claim C4: every non-null value of the target column is to stay. The evaluation below
  shows a value that does not: the second row has no grouping value, and its target
  value 5 is replaced by a null.
\<close>

theorem elegir_imputacion_erases_value:
  "elegir_imputacion
       [(''grupo'', Object [Some ''A'', None, Some ''A'']), (''valor'', Float64 [Some 1, Some 5, None])]
       ''valor'' [''grupo''] 60
     = Inr [(''grupo'', Object [Some ''A'', None, Some ''A'']), (''valor'', Float64 [Some 1, None, Some 1])]"
  by code_simp




section \<open>Further properties of elegir\_imputacion\<close>

text \<open>
  Property X1. A call that returns keeps the column names and the number of rows, leaves
  every column other than the target column as it was, and within the target column
  leaves every non-null value of a row whose grouping values are all non-null as it was;
  the target value of a row with a null grouping value becomes null.
\<close>

theorem elegir_imputacion_preserves:
  assumes "wf df"
    and "elegir_imputacion df columna agrupacion umbral = Inr df'"
    and "row_keys df agrupacion = Inr keys"
    and "getitem df columna = Inr (Float64 vs)"
  shows "column_names df' = column_names df \<and> nrows df' = nrows df \<and>
         (\<forall>c. c \<noteq> columna \<longrightarrow> getitem df' c = getitem df c) \<and>
         (\<exists>vs'. getitem df' columna = Inr (Float64 vs') \<and> length vs' = length vs \<and>
            (\<forall>i < nrows df. NA \<notin> set (keys ! i) \<and> vs ! i \<noteq> None \<longrightarrow> vs' ! i = vs ! i) \<and>
            (\<forall>i < nrows df. NA \<in> set (keys ! i) \<longrightarrow> vs' ! i = None))"
proof -
  from assms(2,3,4) obtain res where
    tr: "transform keys (Float64 vs) (imputar_fecha umbral) = Inr res"
    and df': "df' = setitem df columna (Float64 res)"
    by (auto elim!: elegir_imputacion_InrD)
  have "length res = nrows df"
    using transform_length[OF tr] row_keys_length[OF assms(3)] by simp
  then have "nrows df' = nrows df"
    unfolding df' using assms(4) by (intro nrows_setitem) (auto dest: getitem_Inr_name)
  with elegir_imputacion_frame[OF assms] show ?thesis by blast
qed

theorem elegir_imputacion_preserves_witness:
  "elegir_imputacion ejemplo_sin_clave ''valor'' [''grupo''] 60
     = Inr [(''grupo'', Object [Some ''A'', None, Some ''A'']), (''valor'', Float64 [Some 1, None, Some 1])]
   \<and> column_names [(''grupo'', Object [Some ''A'', None, Some ''A'']), (''valor'', Float64 [Some 1, None, Some 1])]
       = column_names ejemplo_sin_clave
   \<and> getitem [(''grupo'', Object [Some ''A'', None, Some ''A'']), (''valor'', Float64 [Some 1, None, Some 1])] ''grupo''
       = getitem ejemplo_sin_clave ''grupo''"
proof -
  have w: "wf ejemplo_sin_clave" by (simp add: wf_def ejemplo_sin_clave_def nrows_def)
  have r: "elegir_imputacion ejemplo_sin_clave ''valor'' [''grupo''] 60
     = Inr [(''grupo'', Object [Some ''A'', None, Some ''A'']), (''valor'', Float64 [Some 1, None, Some 1])]"
    unfolding ejemplo_sin_clave_def by code_simp
  have k: "row_keys ejemplo_sin_clave [''grupo''] = Inr [[Str ''A''], [NA], [Str ''A'']]"
    unfolding ejemplo_sin_clave_def by code_simp
  have g: "getitem ejemplo_sin_clave ''valor'' = Inr (Float64 [Some 1, Some 5, None])"
    by (simp add: getitem_def ejemplo_sin_clave_def)
  from elegir_imputacion_preserves[OF w r k g] r show ?thesis by simp
qed

text \<open>
  Property X2. When some group of rows with non-null grouping values has only null target
  values, the call raises TypeError.
\<close>

theorem elegir_imputacion_raises_on_null_group:
  assumes "wf df"
    and "row_keys df agrupacion = Inr keys"
    and "getitem df columna = Inr (Float64 vs)"
    and "i < nrows df" and "NA \<notin> set (keys ! i)"
    and "\<forall>j < nrows df. keys ! j = keys ! i \<longrightarrow> vs ! j = None"
  shows "elegir_imputacion df columna agrupacion umbral = Inl TypeError"
  using assms by (rule elegir_imputacion_all_null_group)

theorem elegir_imputacion_raises_on_null_group_witness:
  "wf ejemplo_grupo_nulo \<and> elegir_imputacion ejemplo_grupo_nulo ''valor'' [''grupo''] 60 = Inl TypeError"
proof -
  have w: "wf ejemplo_grupo_nulo" by (simp add: wf_def ejemplo_grupo_nulo_def nrows_def)
  have k: "row_keys ejemplo_grupo_nulo [''grupo''] = Inr [[Str ''A''], [Str ''B''], [Str ''B'']]"
    unfolding ejemplo_grupo_nulo_def by code_simp
  have g: "getitem ejemplo_grupo_nulo ''valor'' = Inr (Float64 [Some 1, None, None])"
    by (simp add: getitem_def ejemplo_grupo_nulo_def)
  have n: "nrows ejemplo_grupo_nulo = 3" by (simp add: nrows_def ejemplo_grupo_nulo_def)
  have a: "\<forall>j < nrows ejemplo_grupo_nulo.
             [[Str ''A''], [Str ''B''], [Str ''B'']] ! j = [[Str ''A''], [Str ''B''], [Str ''B'']] ! 1
               \<longrightarrow> [Some 1, None, None :: rat option] ! j = None"
    unfolding n by (auto simp: less_Suc_eq numeral_3_eq_3)
  from elegir_imputacion_raises_on_null_group[OF w k g _ _ a, of 60] w n show ?thesis by simp
qed

section \<open>Claims about the other helpers\<close>

text \<open>
  Claim C6, as amended. When no column of the dataset bears the name of the helper column,
  \<open>proporcion_datos_importantes\<close>, and the named columns exist, evaluar\_fila returns a
  new frame that holds exactly the rows of the dataset whose target column is null and
  whose fraction of non-null values over the key columns is strictly below the threshold
  (with no key column the fraction is 0 / 0, not a number, and no row is returned), in
  their order and with all their columns; every frame that existed before the call, the
  input dataset among them, is left as it was.
\<close>

theorem evaluar_fila_spec:
  assumes a: "a < length h"
    and wf: "wf (h ! a)"
    and col: "getitem (h ! a) columna_nula = Inr col"
    and claves: "set columnas_clave \<subseteq> set (column_names (h ! a))"
    and fresh: "''proporcion_datos_importantes'' \<notin> set (column_names (h ! a))"
  shows "\<exists>h' r. evaluar_fila h a columna_nula columnas_clave umbral = Inr (h', r) \<and>
           r < length h' \<and> (\<forall>b < length h. h' ! b = h ! b) \<and>
           column_names (h' ! r) = column_names (h ! a) \<and>
           rows (h' ! r) =
             map (row_at (h ! a))
               (filter (\<lambda>i. cells col ! i = NA \<and> columnas_clave \<noteq> [] \<and>
                             of_nat (length (filter (clave_presente (h ! a) i) columnas_clave))
                               / of_nat (length columnas_clave) < umbral)
                  [0..<nrows (h ! a)])"
proof -
  define df where "df = h ! a"
  define P where "P = ''proporcion_datos_importantes''"
  define n where "n = nrows df"
  define m where "m = length columnas_clave"
  define f where "f = (\<lambda>c. the (map_of df c))"
  define js1 where "js1 = mask_rows (isnull col)"
  define d1 where "d1 = filter_rows (isnull col) df"
  define ks where "ks = map (take_rows js1) (map f columnas_clave)"
  define pr where "pr = proporcion_no_nulos ks (nrows d1) m"
  define d3 where "d3 = d1 @ [(P, Float64 pr)]"
  define m2 where "m2 = map (\<lambda>v. case v of None \<Rightarrow> False | Some p \<Rightarrow> p < umbral) pr"
  define h' where "h' = h @ [d1, d3, filter_rows m2 d3, filter_rows m2 d1]"
  define Q where "Q = (\<lambda>i. columnas_clave \<noteq> [] \<and>
                        of_nat (length (filter (clave_presente df i) columnas_clave)) / of_nat m < umbral)"
  have ne: "df \<noteq> []" using col by (auto simp: df_def getitem_def)
  have lencol: "len col = n"
    using wf col by (auto simp: wf_def n_def df_def dest!: getitem_Inr_mem)
  have lenf: "len (f c) = n" if "c \<in> set columnas_clave" for c
  proof -
    from that claves have "getitem df c = Inr (f c)"
      unfolding f_def df_def by (intro getitem_the) auto
    then show ?thesis
      using wf by (auto simp: wf_def n_def df_def dest!: getitem_Inr_mem)
  qed
  have js1: "js1 = filter (\<lambda>i. cells col ! i = NA) [0..<n]"
    unfolding js1_def mask_rows_def length_isnull lencol
    by (intro filter_cong) (auto simp: isnull_nth lencol)
  have js1_bound: "j < n" if "j \<in> set js1" for j using that by (simp add: js1)
  have names1: "column_names d1 = column_names df"
    by (simp add: d1_def column_names_filter_rows)
  have n1: "nrows d1 = length js1"
    unfolding d1_def js1_def by (rule nrows_filter_rows[OF ne])
  have fresh1: "P \<notin> set (column_names d1)"
    using fresh by (simp add: names1 P_def df_def)
  have g1: "getitems d1 columnas_clave = Inr ks"
    using claves by (simp add: d1_def getitems_filter_rows getitems_the df_def[symmetric] ks_def f_def js1_def)
  have set3: "setitem d1 P (Float64 pr) = d3"
    unfolding d3_def by (rule setitem_append[OF fresh1])
  have get3: "getitem d3 P = Inr (Float64 pr)"
    unfolding set3[symmetric] by (rule getitem_setitem_same)
  have lt: "less_than (Float64 pr) umbral = Inr m2"
    by (simp add: less_than_def m2_def)
  have drop: "drop_columns (filter_rows m2 d3) [P] = Inr (filter_rows m2 d1)"
    unfolding d3_def by (rule drop_helper[OF fresh1])
  have run: "evaluar_fila h a columna_nula columnas_clave umbral = Inr (h', length h + 3)"
    unfolding evaluar_fila_def
    using col
    by (simp add: alloc_def Let_def df_def[symmetric] d1_def[symmetric] nth_append g1
        m_def[symmetric] P_def[symmetric] set3[unfolded d3_def pr_def] get3[unfolded d3_def pr_def]
        lt[unfolded m2_def pr_def] drop[unfolded d3_def m2_def pr_def] h'_def d3_def m2_def pr_def
        list_update_append)
  have lenpr: "length pr = length js1"
    by (simp add: pr_def proporcion_no_nulos_def n1)
  have lenm2: "length m2 = length js1" by (simp add: m2_def lenpr)
  have cnt: "length (filter (\<lambda>s. notnull s ! j) ks) = length (filter (clave_presente df (js1 ! j)) columnas_clave)"
    if "j < length js1" for j
  proof -
    have "notnull (take_rows js1 (f c)) ! j = clave_presente df (js1 ! j) c" if "c \<in> set columnas_clave" for c
    proof -
      from that claves have "getitem df c = Inr (f c)"
        unfolding f_def df_def by (intro getitem_the) auto
      moreover have "js1 ! j < len (f c)"
        using lenf[OF that] js1_bound \<open>j < length js1\<close> by simp
      ultimately show ?thesis
        using \<open>j < length js1\<close>
        by (simp add: clave_presente_def notnull_nth len_take_rows cells_take_rows)
    qed
    then have "filter (\<lambda>c. notnull (take_rows js1 (f c)) ! j) columnas_clave
             = filter (clave_presente df (js1 ! j)) columnas_clave"
      by (intro filter_cong) auto
    then show ?thesis
      by (simp add: ks_def filter_map comp_def)
  qed
  have m2_nth: "m2 ! j = Q (js1 ! j)" if "j < length js1" for j
  proof -
    have "pr ! j = (if m = 0 then None
                      else Some (of_nat (length (filter (clave_presente df (js1 ! j)) columnas_clave)) / of_nat m))"
      using that cnt[OF that] by (simp add: pr_def proporcion_no_nulos_def n1 Let_def)
    then show ?thesis
      using that by (simp add: m2_def lenpr Q_def m_def)
  qed
  have "mask_rows m2 = filter (\<lambda>j. Q (js1 ! j)) [0..<length js1]"
    unfolding mask_rows_def lenm2 by (intro filter_cong) (auto simp: m2_nth)
  then have sel: "map ((!) js1) (mask_rows m2) = filter (\<lambda>i. cells col ! i = NA \<and> Q i) [0..<n]"
    by (simp add: map_nth_filter) (simp add: js1)
  have final: "filter_rows m2 d1
                 = map (\<lambda>(c, s). (c, take_rows (filter (\<lambda>i. cells col ! i = NA \<and> Q i) [0..<n]) s)) df"
    unfolding d1_def using filter_rows_filter_rows[of m2 "isnull col" df] lenm2
    by (simp add: js1_def[symmetric] sel)
  have rws: "rows (filter_rows m2 d1) = map (row_at df) (filter (\<lambda>i. cells col ! i = NA \<and> Q i) [0..<n])"
    unfolding final using wf ne by (intro rows_take) (auto simp: df_def n_def)
  have res: "h' ! (length h + 3) = filter_rows m2 d1"
    by (simp add: h'_def nth_append)
  have "length h + 3 < length h'" by (simp add: h'_def)
  moreover have "\<forall>b < length h. h' ! b = h ! b" by (simp add: h'_def nth_append)
  moreover have "column_names (h' ! (length h + 3)) = column_names df"
    by (simp add: res column_names_filter_rows names1)
  moreover have "rows (h' ! (length h + 3)) =
             map (row_at df)
               (filter (\<lambda>i. cells col ! i = NA \<and> columnas_clave \<noteq> [] \<and>
                             of_nat (length (filter (clave_presente df i) columnas_clave))
                               / of_nat (length columnas_clave) < umbral)
                  [0..<nrows df])"
    by (simp add: res rws Q_def m_def n_def)
  ultimately show ?thesis using run unfolding df_def by blast
qed

theorem evaluar_fila_spec_witness:
  "\<exists>h' r. evaluar_fila [ejemplo_filas] 0 ''saldo'' [''nombre'', ''edad'', ''pais''] (7 / 10) = Inr (h', r) \<and>
          r < length h' \<and> h' ! 0 = ejemplo_filas \<and>
          rows (h' ! r) = [[Str ''ana'', Num 31, NA, NA], [Str ''eva'', NA, NA, NA]]"
proof -
  have w: "wf ([ejemplo_filas] ! 0)"
    by (simp add: wf_def ejemplo_filas_def nrows_def)
  have g: "getitem ([ejemplo_filas] ! 0) ''saldo'' = Inr (Float64 [None, Some 2, None, None])"
    by (simp add: getitem_def ejemplo_filas_def)
  have c: "set [''nombre'', ''edad'', ''pais''] \<subseteq> set (column_names ([ejemplo_filas] ! 0))"
    and f: "''proporcion_datos_importantes'' \<notin> set (column_names ([ejemplo_filas] ! 0))"
    by (simp_all add: column_names_def ejemplo_filas_def)
  have r: "map (row_at ([ejemplo_filas] ! 0))
               (filter (\<lambda>i. cells (Float64 [None, Some 2, None, None]) ! i = NA \<and>
                             [''nombre'', ''edad'', ''pais''] \<noteq> [] \<and>
                             of_nat (length (filter (clave_presente ([ejemplo_filas] ! 0) i) [''nombre'', ''edad'', ''pais'']))
                               / of_nat (length [''nombre'', ''edad'', ''pais'']) < (7 / 10 :: rat))
                  [0..<nrows ([ejemplo_filas] ! 0)])
           = [[Str ''ana'', Num 31, NA, NA], [Str ''eva'', NA, NA, NA]]"
    unfolding ejemplo_filas_def by code_simp
  from evaluar_fila_spec[of 0 "[ejemplo_filas]", OF _ w g c f, of "7 / 10"]
  show ?thesis unfolding r by auto
qed

text \<open>
  Claim C6 as stated fails for a dataset that has a column of the helper column's name:
  the function overwrites that column in its copy and drops it before returning, so the
  row it returns (the last frame of the heap) is not the row of the dataset.
\<close>

theorem evaluar_fila_spec_counterexample:
  "evaluar_fila
       [[(''saldo'', Float64 [None, Some 3]), (''proporcion_datos_importantes'', Float64 [Some 1, Some 2])]]
       0 ''saldo'' [''saldo''] (7 / 10)
     = Inr ([[(''saldo'', Float64 [None, Some 3]), (''proporcion_datos_importantes'', Float64 [Some 1, Some 2])],
             [(''saldo'', Float64 [None]), (''proporcion_datos_importantes'', Float64 [Some 1])],
             [(''saldo'', Float64 [None]), (''proporcion_datos_importantes'', Float64 [Some 0])],
             [(''saldo'', Float64 [None]), (''proporcion_datos_importantes'', Float64 [Some 0])],
             [(''saldo'', Float64 [None])]], 4)"
  by code_simp

text \<open>
  Claim C7. On a frame with distinct column names limpiar\_texto returns the frame in
  which every listed text column (dtype object) has its strings stripped of surrounding
  whitespace and lowercased, or only stripped when the column is in the exclusion list;
  null entries stay null, and every other column (not listed, or not text-typed) is
  untouched.
\<close>

theorem limpiar_texto_cleans:
  assumes "distinct (column_names df)"
  shows "limpiar_texto df columnas conservar_mayusculas =
           Inr (map (\<lambda>(c, s). (c, case s of
                                    Object ss \<Rightarrow>
                                      if c \<in> set columnas
                                      then Object (map (map_option (if c \<in> set conservar_mayusculas
                                                                    then strip else lower \<circ> strip)) ss)
                                      else s
                                  | Float64 vs \<Rightarrow> s)) df)"
  using limpiar_texto_closed_form[OF assms] by (simp add: limpiar_serie_def[abs_def])

theorem limpiar_texto_cleans_witness:
  "distinct (column_names ejemplo_texto) \<and>
   limpiar_texto ejemplo_texto [''nombre'', ''pais'', ''edad'', ''ciudad''] [''pais''] =
     Inr [(''nombre'', Object [Some ''ana'', None, Some ''luis'']),
          (''pais'', Object [Some ''CL'', Some ''Ar'', None]),
          (''edad'', Float64 [Some 31, None, Some 40])]"
proof -
  have d: "distinct (column_names ejemplo_texto)"
    by (simp add: column_names_def ejemplo_texto_def)
  have "map (\<lambda>(c, s). (c, case s of
                                    Object ss \<Rightarrow>
                                      if c \<in> set [''nombre'', ''pais'', ''edad'', ''ciudad'']
                                      then Object (map (map_option (if c \<in> set [''pais'']
                                                                    then strip else lower \<circ> strip)) ss)
                                      else s
                                  | Float64 vs \<Rightarrow> s)) ejemplo_texto
        = [(''nombre'', Object [Some ''ana'', None, Some ''luis'']),
          (''pais'', Object [Some ''CL'', Some ''Ar'', None]),
          (''edad'', Float64 [Some 31, None, Some 40])]"
    unfolding ejemplo_texto_def by code_simp
  with limpiar_texto_cleans[OF d, of "[''nombre'', ''pais'', ''edad'', ''ciudad'']" "[''pais'']"] d
  show ?thesis by simp
qed

text \<open>
  Claim C8. resumen\_nulos returns one row for each column of the frame, holding the count
  of the column's null values and that count divided by the number of rows, times 100
  (not a number for a frame without rows); the rows are in descending order of the
  percentage.
\<close>

theorem resumen_nulos_spec:
  "mset (resumen_nulos df) =
     mset (map (\<lambda>(c, s). \<lparr>indice = c,
                           cantidad_nulos = length (filter (\<lambda>x. x = NA) (cells s)),
                           porcentaje_nulos =
                             (if nrows df = 0 then None
                              else Some (of_nat (length (filter (\<lambda>x. x = NA) (cells s)))
                                           / of_nat (nrows df) * 100))\<rparr>) df)
   \<and> sorted_wrt (\<lambda>a b. porcentaje_nulos a \<ge> porcentaje_nulos b) (resumen_nulos df)"
  by (simp add: resumen_nulos_def sort_values_desc_mset sort_values_desc_sorted
      isnull_count porcentaje_def Let_def)

theorem resumen_nulos_spec_witness:
  "mset (resumen_nulos ejemplo_nulos) =
     mset [\<lparr>indice = ''nombre'', cantidad_nulos = 1, porcentaje_nulos = Some 25\<rparr>,
           \<lparr>indice = ''edad'', cantidad_nulos = 3, porcentaje_nulos = Some 75\<rparr>,
           \<lparr>indice = ''pais'', cantidad_nulos = 0, porcentaje_nulos = Some 0\<rparr>]
   \<and> resumen_nulos ejemplo_nulos =
       [\<lparr>indice = ''edad'', cantidad_nulos = 3, porcentaje_nulos = Some 75\<rparr>,
        \<lparr>indice = ''nombre'', cantidad_nulos = 1, porcentaje_nulos = Some 25\<rparr>,
        \<lparr>indice = ''pais'', cantidad_nulos = 0, porcentaje_nulos = Some 0\<rparr>]"
proof -
  have "map (\<lambda>(c, s). \<lparr>indice = c,
                           cantidad_nulos = length (filter (\<lambda>x. x = NA) (cells s)),
                           porcentaje_nulos =
                             (if nrows ejemplo_nulos = 0 then None
                              else Some (of_nat (length (filter (\<lambda>x. x = NA) (cells s)))
                                           / of_nat (nrows ejemplo_nulos) * 100))\<rparr>) ejemplo_nulos
        = [\<lparr>indice = ''nombre'', cantidad_nulos = 1, porcentaje_nulos = Some 25\<rparr>,
           \<lparr>indice = ''edad'', cantidad_nulos = 3, porcentaje_nulos = Some 75\<rparr>,
           \<lparr>indice = ''pais'', cantidad_nulos = 0, porcentaje_nulos = Some 0\<rparr>]"
    unfolding ejemplo_nulos_def by code_simp
  moreover have "resumen_nulos ejemplo_nulos =
       [\<lparr>indice = ''edad'', cantidad_nulos = 3, porcentaje_nulos = Some 75\<rparr>,
        \<lparr>indice = ''nombre'', cantidad_nulos = 1, porcentaje_nulos = Some 25\<rparr>,
        \<lparr>indice = ''pais'', cantidad_nulos = 0, porcentaje_nulos = Some 0\<rparr>]"
    unfolding ejemplo_nulos_def by code_simp
  ultimately show ?thesis
    using resumen_nulos_spec[of ejemplo_nulos] by simp
qed

text \<open>
  Claim C9. Whatever the values of the listed columns are, convertir\_a\_fecha does not
  raise when the listed columns exist; each listed column becomes a datetime column of
  the same length in which every value the parser cannot read is null, and every other
  value is the date the parser reads.
\<close>

theorem convertir_a_fecha_coerces:
  assumes "\<forall>c \<in> set columnas. c \<in> set (column_names df)"
  shows "\<exists>df'. convertir_a_fecha parse df columnas = Inr df' \<and>
           (\<forall>c \<in> set columnas. \<forall>s. getitem df c = Inr (Plain s) \<longrightarrow>
              (\<exists>ds. getitem df' c = Inr (Datetime64 ds) \<and> length ds = len s \<and>
                    (\<forall>i < len s. parse (cells s ! i) = None \<longrightarrow> ds ! i = None) \<and>
                    (\<forall>i < len s. cells s ! i \<noteq> NA \<longrightarrow> ds ! i = parse (cells s ! i))))"
proof -
  from convertir_a_fecha_invariant[OF assms, of parse] obtain df' where df':
    "convertir_a_fecha parse df columnas = Inr df'"
    "\<forall>c s. getitem df c = Inr s \<longrightarrow>
        getitem df' c = Inr (if c \<in> set columnas then to_datetime_coerce parse s else s)"
    by blast
  have len: "length (cells s) = len s" for s by (cases s) simp_all
  have "\<exists>ds. getitem df' c = Inr (Datetime64 ds) \<and> length ds = len s \<and>
                    (\<forall>i < len s. parse (cells s ! i) = None \<longrightarrow> ds ! i = None) \<and>
                    (\<forall>i < len s. cells s ! i \<noteq> NA \<longrightarrow> ds ! i = parse (cells s ! i))"
    if "c \<in> set columnas" "getitem df c = Inr (Plain s)" for c s
  proof -
    from df'(2) that have "getitem df' c = Inr (Datetime64 (map (parse_cell parse) (cells s)))"
      by simp
    moreover have "map (parse_cell parse) (cells s) ! i = None"
      if "i < len s" "parse (cells s ! i) = None" for i
      using that len[of s] by (auto simp add: parse_cell_def split: cell.splits)
    moreover have "map (parse_cell parse) (cells s) ! i = parse (cells s ! i)"
      if "i < len s" "cells s ! i \<noteq> NA" for i
      using that len[of s] by (simp add: parse_cell_def split: cell.splits)
    ultimately show ?thesis using len[of s] by simp
  qed
  with df'(1) show ?thesis by blast
qed

theorem convertir_a_fecha_coerces_witness:
  "\<exists>df'. convertir_a_fecha parse_ejemplo ejemplo_fechas [''alta''] = Inr df' \<and>
         (\<exists>ds. getitem df' ''alta'' = Inr (Datetime64 ds) \<and> length ds = 3 \<and>
               ds ! 0 = Some 1577923200000000000 \<and> ds ! 1 = None)"
proof -
  have n: "\<forall>c \<in> set [''alta'']. c \<in> set (column_names ejemplo_fechas)"
    by (simp add: column_names_def ejemplo_fechas_def)
  have g: "getitem ejemplo_fechas ''alta'' = Inr (Plain (Object [Some ''2020-01-02'', Some ''ayer'', None]))"
    by (simp add: getitem_def ejemplo_fechas_def)
  from convertir_a_fecha_coerces[OF n, of parse_ejemplo] obtain df' where df':
    "convertir_a_fecha parse_ejemplo ejemplo_fechas [''alta''] = Inr df'"
    "\<forall>c \<in> set [''alta'']. \<forall>s. getitem ejemplo_fechas c = Inr (Plain s) \<longrightarrow>
        (\<exists>ds. getitem df' c = Inr (Datetime64 ds) \<and> length ds = len s \<and>
              (\<forall>i < len s. parse_ejemplo (cells s ! i) = None \<longrightarrow> ds ! i = None) \<and>
              (\<forall>i < len s. cells s ! i \<noteq> NA \<longrightarrow> ds ! i = parse_ejemplo (cells s ! i)))"
    by blast
  from df'(2) g obtain ds where ds:
    "getitem df' ''alta'' = Inr (Datetime64 ds)" "length ds = 3"
    "\<forall>i < 3. parse_ejemplo (cells (Object [Some ''2020-01-02'', Some ''ayer'', None]) ! i) = None \<longrightarrow> ds ! i = None"
    "\<forall>i < 3. cells (Object [Some ''2020-01-02'', Some ''ayer'', None]) ! i \<noteq> NA
        \<longrightarrow> ds ! i = parse_ejemplo (cells (Object [Some ''2020-01-02'', Some ''ayer'', None]) ! i)"
    by auto
  from ds(3) have "ds ! 1 = None" by (simp add: parse_ejemplo_def)
  moreover from ds(4) have "ds ! 0 = Some 1577923200000000000" by (simp add: parse_ejemplo_def)
  ultimately show ?thesis using df'(1) ds(1,2) by simp
qed

text \<open>
  Claim C10. limpiar\_texto returns for every frame and every list of column names; a
  listed name that is not a column, or whose column is not text-typed, is skipped: the
  frame keeps its columns, and what that name denotes is the same after the call.
\<close>

theorem limpiar_texto_total:
  "\<exists>df'. limpiar_texto df columnas conservar_mayusculas = Inr df' \<and>
         column_names df' = column_names df \<and>
         (\<forall>c \<in> set columnas.
             c \<notin> set (column_names df) \<or> (\<exists>vs. getitem df c = Inr (Float64 vs))
               \<longrightarrow> getitem df' c = getitem df c)"
proof -
  from limpiar_texto_invariant[of df columnas conservar_mayusculas] obtain df' where df':
    "limpiar_texto df columnas conservar_mayusculas = Inr df'" "column_names df' = column_names df"
    "\<forall>c. \<not> (\<exists>ss. getitem df c = Inr (Object ss)) \<longrightarrow> getitem df' c = getitem df c"
    by blast
  have "getitem df' c = getitem df c"
    if "c \<notin> set (column_names df) \<or> (\<exists>vs. getitem df c = Inr (Float64 vs))" for c
  proof -
    have "\<not> (\<exists>ss. getitem df c = Inr (Object ss))"
      using that getitem_Inr_name[of df c] by auto
    with df'(3) show ?thesis by simp
  qed
  with df'(1,2) show ?thesis by blast
qed

theorem limpiar_texto_total_witness:
  "\<exists>df'. limpiar_texto ejemplo_texto [''edad'', ''ciudad''] [] = Inr df' \<and>
         column_names df' = [''nombre'', ''pais'', ''edad''] \<and>
         getitem df' ''edad'' = Inr (Float64 [Some 31, None, Some 40]) \<and>
         getitem df' ''ciudad'' = Inl KeyError"
proof -
  from limpiar_texto_total[of ejemplo_texto "[''edad'', ''ciudad'']" "[]"] obtain df' where df':
    "limpiar_texto ejemplo_texto [''edad'', ''ciudad''] [] = Inr df'"
    "column_names df' = column_names ejemplo_texto"
    "\<forall>c \<in> set [''edad'', ''ciudad''].
        c \<notin> set (column_names ejemplo_texto) \<or> (\<exists>vs. getitem ejemplo_texto c = Inr (Float64 vs))
          \<longrightarrow> getitem df' c = getitem ejemplo_texto c"
    by blast
  have e: "getitem ejemplo_texto ''edad'' = Inr (Float64 [Some 31, None, Some 40])"
    and c: "getitem ejemplo_texto ''ciudad'' = Inl KeyError"
    and n: "column_names ejemplo_texto = [''nombre'', ''pais'', ''edad'']"
    by (simp_all add: getitem_def ejemplo_texto_def column_names_def)
  from df'(3) e have "getitem df' ''edad'' = Inr (Float64 [Some 31, None, Some 40])"
    by simp
  moreover from df'(3) c n have "getitem df' ''ciudad'' = Inl KeyError"
    by simp
  ultimately show ?thesis using df'(1,2) n by simp
qed

end
